theory Spec2Isabelle
  imports Main "HOL-Library.FSet"
begin

section \<open>JavaScript values used by the application\<close>

text \<open>
  A JavaScript string is a sequence of UTF-16 code units.  The session engine compares
  Cyrillic keywords, so the code units are kept as numbers instead of bytes.
  \<open>str\<close> turns an ASCII literal into its code units.
\<close>

type_synonym jsstring = "nat list"

definition str :: "string \<Rightarrow> jsstring" where
  "str s = map of_char s"

text \<open>
  What the model reports instead of a result: \<open>TypeError\<close> is the runtime's exception for
  a property read on \<open>undefined\<close>, \<open>Error\<close> is \<open>throw new Error(msg)\<close>, and
  \<open>OutsideType\<close> marks an array that would hold \<open>undefined\<close>, a hole or an object
  without the fields of its declared element type (nothing is thrown there; the value
  just has no counterpart in the declared types).  \<open>NotFinite\<close> marks a number that is
  \<open>Infinity\<close> or \<open>NaN\<close> in the runtime, which the integers of the model do not hold.
\<close>

datatype fault = TypeError | Error jsstring | OutsideType | NotFinite

subsection \<open>Numbers\<close>

text \<open>
  A JavaScript number is a double.  The model keeps the integer-valued ones as \<open>int\<close>.
  A sum or difference is the exact result rounded to the nearest double, a tie going to
  the even significand: \<open>excess_bits m\<close> counts the low bits that do not fit into the
  53 bits of the significand, \<open>round_nat\<close> rounds a magnitude, \<open>double_of_int\<close> an
  integer.  Up to \<open>2 ^ 53\<close> every integer is a double and nothing is rounded.  A
  result whose rounded magnitude reaches \<open>2 ^ 1024\<close> is \<open>Infinity\<close> in the runtime.
\<close>

fun excess_bits :: "nat \<Rightarrow> nat" where
  "excess_bits m = (if m < 2 ^ 53 then 0 else Suc (excess_bits (m div 2)))"

declare excess_bits.simps [simp del]

definition round_nat :: "nat \<Rightarrow> nat" where
  "round_nat m =
     (let e = excess_bits m; q = m div 2 ^ e; r = m mod 2 ^ e
      in if 2 * r > 2 ^ e \<or> (2 * r = 2 ^ e \<and> odd q) then (q + 1) * 2 ^ e else q * 2 ^ e)"

definition double_of_int :: "int \<Rightarrow> int" where
  "double_of_int x = sgn x * int (round_nat (nat \<bar>x\<bar>))"

definition js_add :: "int \<Rightarrow> int \<Rightarrow> int" where
  "js_add a b = double_of_int (a + b)"

definition js_sub :: "int \<Rightarrow> int \<Rightarrow> int" where
  "js_sub a b = double_of_int (a - b)"

definition is_finite :: "int \<Rightarrow> bool" where
  "is_finite x \<longleftrightarrow> \<bar>x\<bar> < 2 ^ 1024"

subsection \<open>White space, \<open>trim\<close>, \<open>includes\<close>\<close>

text \<open>The code units that \<open>String.prototype.trim\<close> and \<open>parseInt\<close> skip.\<close>

definition is_js_space :: "nat \<Rightarrow> bool" where
  "is_js_space c \<longleftrightarrow>
     (9 \<le> c \<and> c \<le> 13) \<or> c = 32 \<or> c = 160 \<or> c = 5760 \<or> (8192 \<le> c \<and> c \<le> 8202) \<or>
     c = 8232 \<or> c = 8233 \<or> c = 8239 \<or> c = 8287 \<or> c = 12288 \<or> c = 65279"

definition trim :: "jsstring \<Rightarrow> jsstring" where
  "trim s = rev (dropWhile is_js_space (rev (dropWhile is_js_space s)))"

definition startsWith :: "jsstring \<Rightarrow> jsstring \<Rightarrow> bool" where
  "startsWith s w \<longleftrightarrow> take (length w) s = w"

fun includes_str :: "jsstring \<Rightarrow> jsstring \<Rightarrow> bool" where
  "includes_str [] w = (w = [])"
| "includes_str (c # cs) w = (startsWith (c # cs) w \<or> includes_str cs w)"

subsection \<open>Decimal digits and \<open>parseInt\<close>\<close>

definition is_digit :: "nat \<Rightarrow> bool" where
  "is_digit c \<longleftrightarrow> 48 \<le> c \<and> c \<le> 57"


definition digit_value :: "nat \<Rightarrow> nat" where
  "digit_value c = (if is_digit c then c - 48 else if 97 \<le> c then c - 87 else c - 55)"

definition radix_value :: "nat \<Rightarrow> jsstring \<Rightarrow> nat" where
  "radix_value R Z = fold (\<lambda>c acc. acc * R + digit_value c) Z 0"


text \<open>The decimal text of a natural number, as a template literal prints an index.\<close>

fun digits10 :: "nat \<Rightarrow> jsstring" where
  "digits10 n = (if n < 10 then [48 + n] else digits10 (n div 10) @ [48 + n mod 10])"

declare digits10.simps [simp del]

section \<open>Pipeline types\<close>

datatype expected_type = ExpNumber | ExpText

record WorkflowStep =
  step_id :: jsstring
  instruction :: jsstring
  targetRowIndex :: int
  targetColumnId :: jsstring
  expectedType :: expected_type

record WorkflowPlan =
  steps :: "WorkflowStep list"
  description :: jsstring

section \<open>The pipeline editor (WorkflowWizard)\<close>

text \<open>
  The component state that the edit handlers read and write.  \<open>plan = None\<close> is the
  \<open>null\<close> plan; \<open>selectedIndices\<close> is the \<open>Set<number>\<close> of selected positions.
\<close>

record wizard =
  plan :: "WorkflowPlan option"
  editingStepId :: "jsstring option"
  editInstruction :: jsstring
  editRowIndex :: jsstring
  editColumnId :: jsstring
  draggedIdx :: "nat option"
  selectedIndices :: "nat fset"

subsection \<open>saveStepEdit\<close>



subsection \<open>duplicateSelected\<close>

text \<open>\<open>Math.min(...rows)\<close> and \<open>Math.max(...rows)\<close> on a list with a first element.\<close>

definition Math_min :: "int \<Rightarrow> int list \<Rightarrow> int" where
  "Math_min r rs = fold min rs r"

definition Math_max :: "int \<Rightarrow> int list \<Rightarrow> int" where
  "Math_max r rs = fold max rs r"

text \<open>\<open>(maxRow - minRow) + 1 || 1\<close>: the right operand replaces a zero.\<close>

definition smartOffset :: "int \<Rightarrow> int \<Rightarrow> int" where
  "smartOffset minRow maxRow =
     (let v = js_add (js_sub maxRow minRow) 1 in if v = 0 then 1 else v)"

text \<open>
  \<open>freshId k\<close> is the id string that the k-th evaluation of
  \<open>`copy_${Date.now()}_${Math.random()}`\<close> produces.  A selected position past the end
  reads \<open>undefined\<close>, and \<open>s.targetRowIndex\<close> then throws.  With no selected step the
  list of copies is empty (the guard excludes that case anyway).  The rows of the steps
  are doubles, and so are the difference, the offset and the rows of the copies; when
  one of these is no finite number the model stops with \<open>NotFinite\<close>.
\<close>

definition duplicateSelected :: "(nat \<Rightarrow> jsstring) \<Rightarrow> wizard \<Rightarrow> fault + wizard" where
  "duplicateSelected freshId st =
    (case plan st of
       None \<Rightarrow> Inr st
     | Some p \<Rightarrow>
        if selectedIndices st = {||} then Inr st
        else
          (let indices = sorted_list_of_fset (selectedIndices st)
           in if list_ex (\<lambda>i. \<not> i < length (steps p)) indices then Inl TypeError
              else
                (let selectedSteps = map (\<lambda>i. steps p ! i) indices;
                     rows = map targetRowIndex selectedSteps
                 in case rows of
                      [] \<Rightarrow> Inr (st\<lparr>plan := Some (p\<lparr>steps := steps p @ []\<rparr>),
                                   selectedIndices := {||}\<rparr>)
                    | r # rs \<Rightarrow>
                       (let minRow = Math_min r rs;
                            maxRow = Math_max r rs;
                            offset = smartOffset minRow maxRow;
                            newSteps =
                              map (\<lambda>(k, step). step\<lparr>step_id := freshId k,
                                     targetRowIndex := js_add (targetRowIndex step) offset\<rparr>)
                                (enumerate 0 selectedSteps)
                        in if is_finite (js_sub maxRow minRow) \<and> is_finite offset \<and>
                              list_all (\<lambda>s. is_finite (targetRowIndex s)) newSteps
                           then Inr (st\<lparr>plan := Some (p\<lparr>steps := steps p @ newSteps\<rparr>),
                                       selectedIndices := {||}\<rparr>)
                           else Inl NotFinite))))"

subsection \<open>Drag and drop\<close>

text \<open>
  \<open>xs.splice(start, 1)\<close> returns the removed element (none when \<open>start\<close> is past the
  end) and leaves the rest; \<open>xs.splice(start, 0, item)\<close> inserts, with \<open>start\<close> clamped
  to the length.
\<close>

definition splice_remove :: "nat \<Rightarrow> 'a list \<Rightarrow> 'a option \<times> 'a list" where
  "splice_remove start xs =
     (if start < length xs then (Some (xs ! start), take start xs @ drop (Suc start) xs)
      else (None, xs))"

definition splice_insert :: "nat \<Rightarrow> 'a \<Rightarrow> 'a list \<Rightarrow> 'a list" where
  "splice_insert start item xs = take start xs @ item # drop start xs"

definition onDragStart :: "nat \<Rightarrow> wizard \<Rightarrow> wizard" where
  "onDragStart index st = st\<lparr>draggedIdx := Some index\<rparr>"

text \<open>
  When nothing was removed, \<open>movedItem\<close> is \<open>undefined\<close> and the second splice would
  insert it among the steps.
\<close>

definition onDrop :: "nat \<Rightarrow> wizard \<Rightarrow> fault + wizard" where
  "onDrop dropIndex st =
    (case plan st of
       None \<Rightarrow> Inr st
     | Some p \<Rightarrow>
        (case draggedIdx st of
           None \<Rightarrow> Inr st
         | Some d \<Rightarrow>
            (case splice_remove d (steps p) of
               (None, _) \<Rightarrow> Inl OutsideType
             | (Some movedItem, rest) \<Rightarrow>
                 Inr (st\<lparr>plan := Some (p\<lparr>steps := splice_insert dropIndex movedItem rest\<rparr>),
                        draggedIdx := None\<rparr>))))"

text \<open>
  The spec's \<open>reorderStep(P, from, to)\<close> is one drag gesture: the drag starts on the row
  at \<open>from\<close> and is dropped on the row at \<open>to\<close>.
\<close>

definition reorderStep :: "nat \<Rightarrow> nat \<Rightarrow> wizard \<Rightarrow> fault + wizard" where
  "reorderStep fromIndex toIndex st = onDrop toIndex (onDragStart fromIndex st)"


subsection \<open>The duplicate offset law in the spec's words\<close>

text \<open>
  The rows of the selected steps, taken in ascending order of position, and the offset
  \<open>(max - min) + 1\<close> the spec gives for them.
\<close>

definition selectedRows :: "WorkflowPlan \<Rightarrow> nat fset \<Rightarrow> int list" where
  "selectedRows p sel = map (\<lambda>i. targetRowIndex (steps p ! i)) (sorted_list_of_fset sel)"

definition spec_offset :: "int list \<Rightarrow> int" where
  "spec_offset rs = (Max (set rs) - Min (set rs)) + 1"

subsection \<open>A concrete editor state\<close>

definition example_step :: "nat \<Rightarrow> int \<Rightarrow> WorkflowStep" where
  "example_step k row =
     \<lparr>step_id = str ''step_'' @ digits10 k, instruction = str ''Anode'',
      targetRowIndex = row, targetColumnId = str ''col_0'', expectedType = ExpNumber\<rparr>"

definition example_plan :: WorkflowPlan where
  "example_plan =
     \<lparr>steps = [example_step 0 3, example_step 1 4, example_step 2 7],
      description = str ''rows first''\<rparr>"

definition example_wizard :: wizard where
  "example_wizard =
     \<lparr>plan = Some example_plan, editingStepId = None, editInstruction = str ''Anode'',
      editRowIndex = str ''12'', editColumnId = str ''col_0'', draggedIdx = None,
      selectedIndices = {|1, 0|}\<rparr>"

definition example_freshId :: "nat \<Rightarrow> jsstring" where
  "example_freshId k = str ''copy_'' @ digits10 k"

text \<open>A plan with one step at row \<open>2 ^ 53\<close>, selected.\<close>

definition large_wizard :: wizard where
  "large_wizard =
     \<lparr>plan = Some \<lparr>steps = [example_step 0 9007199254740992], description = []\<rparr>,
      editingStepId = None, editInstruction = [], editRowIndex = [], editColumnId = [],
      draggedIdx = None, selectedIndices = {|0|}\<rparr>"

section \<open>The guided session (GuidedSession)\<close>

datatype Language = En | Ru

text \<open>
  The callbacks a session invokes, in the order it invokes them: \<open>log(msg)\<close>,
  \<open>onClose()\<close> (the owner unmounts the session: it is finished), \<open>alert(msg)\<close> and
  \<open>onValueReceived(rowIndex, colId, value)\<close>, the table write.
\<close>

datatype session_effect =
    Log jsstring
  | Close
  | Alert jsstring
  | ValueReceived int jsstring jsstring

record session =
  currentStepIndex :: nat
  isListening :: bool
  transcript :: jsstring

text \<open>\<open>plan.steps[currentStepIndex]\<close>, \<open>undefined\<close> past the end.\<close>

definition currentStep :: "WorkflowPlan \<Rightarrow> session \<Rightarrow> WorkflowStep option" where
  "currentStep workflow st =
     (if currentStepIndex st < length (steps workflow) then Some (steps workflow ! currentStepIndex st)
      else None)"

text \<open>
  The keyword lists of \<open>handleResult\<close>.  The Russian words are written as their code
  units: the stop words are "stop", "vykhod", "khvatit" in Cyrillic letters and the skip
  words "dal'she", "propustit'", "skip"; the completion message is "Marshrut zavershen!".
\<close>

definition stopWords :: "Language \<Rightarrow> jsstring list" where
  "stopWords language =
     (case language of
        Ru \<Rightarrow> [[1089, 1090, 1086, 1087], [1074, 1099, 1093, 1086, 1076],
               [1093, 1074, 1072, 1090, 1080, 1090]]
      | En \<Rightarrow> [str ''stop'', str ''exit''])"

definition nextWords :: "Language \<Rightarrow> jsstring list" where
  "nextWords language =
     (case language of
        Ru \<Rightarrow> [[1076, 1072, 1083, 1100, 1096, 1077],
               [1087, 1088, 1086, 1087, 1091, 1089, 1090, 1080, 1090, 1100],
               [1089, 1082, 1080, 1087]]
      | En \<Rightarrow> [str ''skip'', str ''next''])"

definition completeMessage :: "Language \<Rightarrow> jsstring" where
  "completeMessage language =
     (case language of
        Ru \<Rightarrow> [1052, 1072, 1088, 1096, 1088, 1091, 1090, 32, 1079, 1072, 1074, 1077, 1088,
               1096, 1077, 1085, 33]
      | En \<Rightarrow> str ''Workflow Complete!'')"

definition nextStep :: "WorkflowPlan \<Rightarrow> Language \<Rightarrow> session \<Rightarrow> session_effect list \<times> session" where
  "nextStep workflow language st =
     (if int (currentStepIndex st) < int (length (steps workflow)) - 1
      then ([], st\<lparr>currentStepIndex := currentStepIndex st + 1, transcript := []\<rparr>)
      else ([Alert (completeMessage language), Close], st))"

subsection \<open>Number cleanup\<close>

text \<open>\<open>s.replace(',', '.')\<close> with a string pattern: the first occurrence only.\<close>

fun replace_first :: "nat \<Rightarrow> nat \<Rightarrow> jsstring \<Rightarrow> jsstring" where
  "replace_first a b [] = []"
| "replace_first a b (c # cs) = (if c = a then b # cs else c # replace_first a b cs)"

text \<open>
  The pattern \<open>-?\d+(\.\d+)?\<close>.  \<open>match_unsigned\<close> is \<open>\d+(\.\d+)?\<close> anchored at the
  head of the text: all the digits there, then a period with all the digits after it when
  there is at least one.  \<open>match_here\<close> adds the optional minus sign; \<open>match_number\<close>
  is \<open>s.match(...)\<close>, the leftmost match.
\<close>

definition match_unsigned :: "jsstring \<Rightarrow> jsstring option" where
  "match_unsigned s =
     (let ds = takeWhile is_digit s; rest = dropWhile is_digit s
      in if ds = [] then None
         else Some (ds @ (case rest of
                            [] \<Rightarrow> []
                          | c # r \<Rightarrow> if c = 46 \<and> takeWhile is_digit r \<noteq> []
                                     then c # takeWhile is_digit r else [])))"

definition match_here :: "jsstring \<Rightarrow> jsstring option" where
  "match_here s =
     (case s of
        [] \<Rightarrow> None
      | c # r \<Rightarrow>
          if c = 45
          then (case match_unsigned r of Some m \<Rightarrow> Some (c # m) | None \<Rightarrow> None)
          else match_unsigned s)"

fun match_number :: "jsstring \<Rightarrow> jsstring option" where
  "match_number [] = None"
| "match_number (c # cs) =
     (case match_here (c # cs) of Some m \<Rightarrow> Some m | None \<Rightarrow> match_number cs)"

definition numberValue :: "jsstring \<Rightarrow> jsstring" where
  "numberValue cleanText =
     (let norm = replace_first 44 46 cleanText
      in case match_number norm of Some m \<Rightarrow> m | None \<Rightarrow> cleanText)"

subsection \<open>handleResult\<close>

text \<open>
  \<open>toLowerCase\<close> is the runtime's Unicode lower-casing, a parameter of the model, and
  \<open>workflow\<close> is the \<open>plan\<close> prop of the component.  The result is the list of
  callbacks invoked and then either the new component state or the exception that ended
  the handler (reading \<open>expectedType\<close> of a missing step).
\<close>

definition handleResult ::
  "(jsstring \<Rightarrow> jsstring) \<Rightarrow> WorkflowPlan \<Rightarrow> Language \<Rightarrow> jsstring \<Rightarrow> session
     \<Rightarrow> session_effect list \<times> (fault + session)" where
  "handleResult toLowerCase workflow language text st =
    (let cleanText = toLowerCase (trim text)
     in if cleanText = [] then ([], Inr st)
        else
          (let said = Log (str ''User said: '' @ [34] @ cleanText @ [34])
           in if list_ex (\<lambda>w. includes_str cleanText w) (stopWords language)
              then ([said, Close], Inr st)
              else if list_ex (\<lambda>w. includes_str cleanText w) (nextWords language)
              then (case nextStep workflow language st of (es, st') \<Rightarrow> (said # es, Inr st'))
              else
                (case currentStep workflow st of
                   None \<Rightarrow> ([said], Inl TypeError)
                 | Some step \<Rightarrow>
                    (let val = (if expectedType step = ExpNumber then numberValue cleanText
                                else cleanText)
                     in case nextStep workflow language st of
                          (es, st') \<Rightarrow>
                            (said # ValueReceived (targetRowIndex step) (targetColumnId step) val
                               # es, Inr st')))))"

subsection \<open>The number cleanup in the spec's words\<close>

text \<open>
  Every comma replaced by a period, then the first numeric substring; the clean text
  itself when there is none.
\<close>

definition spec_numberValue :: "jsstring \<Rightarrow> jsstring" where
  "spec_numberValue cleanText =
     (case match_number (map (\<lambda>c. if c = 44 then 46 else c) cleanText) of
        Some m \<Rightarrow> m
      | None \<Rightarrow> cleanText)"

subsection \<open>A concrete session\<close>

text \<open>
  Lower-casing of the Basic Latin and Russian capital letters, where it agrees with the
  runtime; it stands in for the runtime's function on such texts.
\<close>

definition basic_toLowerCase :: "jsstring \<Rightarrow> jsstring" where
  "basic_toLowerCase s =
     map (\<lambda>c. if (65 \<le> c \<and> c \<le> 90) \<or> (1040 \<le> c \<and> c \<le> 1071) then c + 32
              else if c = 1025 then 1105 else c) s"

definition example_session :: session where
  "example_session = \<lparr>currentStepIndex = 0, isListening = False, transcript = []\<rparr>"

text \<open>
  Three utterances: the Russian for "about twelve" with a capital letter and spaces
  around it, its trimmed lower-case form, and the Russian for "yes, 12,5", which has a
  comma before the number.
\<close>

definition example_utterance :: jsstring where
  "example_utterance =
     [32, 1054, 1082, 1086, 1083, 1086, 32, 1076, 1074, 1077, 1085, 1072, 1076, 1094, 1072,
      1090, 1080, 32]"

definition example_clean :: jsstring where
  "example_clean =
     [1086, 1082, 1086, 1083, 1086, 32, 1076, 1074, 1077, 1085, 1072, 1076, 1094, 1072, 1090,
      1080]"

definition example_comma_utterance :: jsstring where
  "example_comma_utterance = [1076, 1072, 44, 32, 49, 50, 44, 53]"

section \<open>Tables\<close>

datatype column_type = TText | TNumber | TDate | TBoolean

record Column =
  col_id :: jsstring
  label :: jsstring
  col_type :: column_type

text \<open>
  A cell value is \<open>string | number | boolean | null\<close>; the numbers are the runtime's, of
  a type \<open>'n\<close> the model leaves open.  A row maps column ids to cell values.  The rows
  of a table are an array that can have holes (the guided write below makes them when it
  stores past the end), so an entry is \<open>None\<close> where reading it gives \<open>undefined\<close>.
\<close>

datatype 'n cell = CStr jsstring | CNum 'n | CBool bool | CNull

type_synonym 'n Cell = "jsstring \<rightharpoonup> 'n cell"

record 'n TableData =
  table_id :: jsstring
  name :: jsstring
  createdAt :: int
  lastModified :: int
  columns :: "Column list"
  rows :: "'n Cell option list"
  workflowPlan :: "WorkflowPlan option"

section \<open>CSV import (fileService)\<close>

text \<open>
  The number conversions of the runtime that the import calls: \<open>parseFloat\<close>,
  \<open>isNaN\<close>, \<open>isFinite\<close> and \<open>String\<close> on a number.  They work on doubles and are
  taken as parameters.
\<close>

record 'n number_runtime =
  parseFloat :: "jsstring \<Rightarrow> 'n"
  isNaN :: "'n \<Rightarrow> bool"
  isFinite :: "'n \<Rightarrow> bool"
  numberToString :: "'n \<Rightarrow> jsstring"

text \<open>\<open>content.split(/\r\n|\n/)\<close>: at each position CR LF is tried before LF.\<close>

fun split_lines :: "jsstring \<Rightarrow> jsstring list" where
  "split_lines [] = [[]]"
| "split_lines [c] = (if c = 10 then [[], []] else [[c]])"
| "split_lines (c # d # cs) =
     (if c = 13 \<and> d = 10 then [] # split_lines cs
      else if c = 10 then [] # split_lines (d # cs)
      else (case split_lines (d # cs) of l # ls \<Rightarrow> (c # l) # ls | [] \<Rightarrow> [[c]]))"

text \<open>\<open>s.split(sep)\<close> for a one-character separator.\<close>

fun split_on :: "nat \<Rightarrow> jsstring \<Rightarrow> jsstring list" where
  "split_on sep [] = [[]]"
| "split_on sep (c # cs) =
     (if c = sep then [] # split_on sep cs
      else (case split_on sep cs of f # fs \<Rightarrow> (c # f) # fs | [] \<Rightarrow> [[c]]))"

text \<open>\<open>s.replace(/^"|"$/g, '')\<close>: a leading quote goes, then a trailing one.\<close>

definition strip_quotes :: "jsstring \<Rightarrow> jsstring" where
  "strip_quotes s =
     (let s1 = (case s of c # r \<Rightarrow> if c = 34 then r else s | [] \<Rightarrow> s)
      in if s1 \<noteq> [] \<and> last s1 = 34 then butlast s1 else s1)"

text \<open>\<open>line.split(',').map(v => v.trim().replace(/^"|"$/g, ''))\<close>.\<close>

definition csv_fields :: "jsstring \<Rightarrow> jsstring list" where
  "csv_fields line = map (\<lambda>v. strip_quotes (trim v)) (split_on 44 line)"

text \<open>\<open>content.split(/\r\n|\n/).filter(line => line.trim() !== '')\<close>.\<close>

definition csv_lines :: "jsstring \<Rightarrow> jsstring list" where
  "csv_lines content = filter (\<lambda>line. trim line \<noteq> []) (split_lines content)"

text \<open>\<open>values[idx] || ""\<close>.\<close>

definition field_at :: "jsstring list \<Rightarrow> nat \<Rightarrow> jsstring" where
  "field_at values idx = (if idx < length values then values ! idx else [])"

text \<open>
  The test \<open>!isNaN(numVal) && isFinite(numVal) && String(numVal) === val\<close> with
  \<open>numVal = parseFloat(val)\<close>.
\<close>

definition looksNumeric :: "'n number_runtime \<Rightarrow> jsstring \<Rightarrow> bool" where
  "looksNumeric rt val \<longleftrightarrow>
     (let numVal = parseFloat rt val
      in \<not> isNaN rt numVal \<and> isFinite rt numVal \<and> numberToString rt numVal = val)"

text \<open>
  \<open>columns.forEach((col, idx) => ...)\<close> for one line: it fills the row and upgrades the
  type of a text column in place when the value passes the test.  The columns come back
  with the row because later lines see the upgraded types.
\<close>

fun fillRow ::
  "'n number_runtime \<Rightarrow> jsstring list \<Rightarrow> nat \<Rightarrow> Column list \<Rightarrow> 'n Cell
     \<Rightarrow> Column list \<times> 'n Cell" where
  "fillRow rt values idx [] row = ([], row)"
| "fillRow rt values idx (col # cols) row =
     (let val = field_at values idx;
          numVal = parseFloat rt val
      in if looksNumeric rt val
         then (case fillRow rt values (idx + 1) cols (row(col_id col \<mapsto> CNum numVal)) of
                 (cols', row') \<Rightarrow>
                   ((if col_type col = TText then col\<lparr>col_type := TNumber\<rparr> else col) # cols',
                    row'))
         else (case fillRow rt values (idx + 1) cols (row(col_id col \<mapsto> CStr val)) of
                 (cols', row') \<Rightarrow> (col # cols', row')))"

text \<open>\<open>lines.slice(1).map(line => ...)\<close>.\<close>

fun parseRows ::
  "'n number_runtime \<Rightarrow> jsstring list \<Rightarrow> Column list \<Rightarrow> Column list \<times> 'n Cell list" where
  "parseRows rt [] cols = (cols, [])"
| "parseRows rt (line # lines) cols =
     (case fillRow rt (csv_fields line) 0 cols Map.empty of
        (cols', row) \<Rightarrow>
          (case parseRows rt lines cols' of (cols'', rs) \<Rightarrow> (cols'', row # rs)))"

definition headerColumns :: "jsstring list \<Rightarrow> Column list" where
  "headerColumns headers =
     map (\<lambda>(idx, h). \<lparr>col_id = str ''col_'' @ digits10 idx,
                       label = (if h = [] then str ''Column '' @ digits10 (idx + 1) else h),
                       col_type = TText\<rparr>)
       (enumerate 0 headers)"

text \<open>
  \<open>uuid\<close> is the value of \<open>crypto.randomUUID()\<close>, \<open>now1\<close> and \<open>now2\<close> are the two
  readings of \<open>Date.now()\<close>.
\<close>

definition parseCSV ::
  "'n number_runtime \<Rightarrow> jsstring \<Rightarrow> int \<Rightarrow> int \<Rightarrow> jsstring \<Rightarrow> jsstring
     \<Rightarrow> fault + 'n TableData" where
  "parseCSV rt uuid now1 now2 content fileName =
    (case csv_lines content of
       [] \<Rightarrow> Inl (Error (str ''Empty file''))
     | header # dataLines \<Rightarrow>
        (let headers = csv_fields header;
             parsed = parseRows rt dataLines (headerColumns headers)
         in Inr \<lparr>table_id = uuid,
                 name = (case split_on 46 fileName of
                           n # _ \<Rightarrow> if n = [] then str ''Imported CSV'' else n
                         | [] \<Rightarrow> str ''Imported CSV''),
                 createdAt = now1,
                 lastModified = now2,
                 columns = fst parsed,
                 rows = map Some (snd parsed),
                 workflowPlan = None\<rparr>))"

subsection \<open>The number columns in the spec's words\<close>

text \<open>
  A canonical number in the spec's words is round-trippable (it passes the test above)
  and non-exponential (it has no exponent mark \<open>e\<close> or \<open>E\<close>).  A number column in
  the spec's words: every non-empty value seen in column \<open>i\<close> is such a number.
\<close>

definition spec_canonical :: "'n number_runtime \<Rightarrow> jsstring \<Rightarrow> bool" where
  "spec_canonical rt val \<longleftrightarrow> looksNumeric rt val \<and> \<not> List.member val 101 \<and> \<not> List.member val 69"

definition spec_number_column :: "'n number_runtime \<Rightarrow> jsstring list \<Rightarrow> nat \<Rightarrow> bool" where
  "spec_number_column rt dataLines i \<longleftrightarrow>
     list_all (\<lambda>line. field_at (csv_fields line) i = [] \<or> spec_canonical rt (field_at (csv_fields line) i))
       dataLines"

subsection \<open>A concrete import\<close>

text \<open>
  A stand-in for the runtime's conversions on integers: the numbers are \<open>int option\<close>
  with \<open>None\<close> for \<open>NaN\<close>.  Parsing reads white space, a sign, decimal digits and an
  exponent \<open>e\<close> or \<open>e+\<close> with digits.  Printing gives the decimal digits below
  \<open>10 ^ 21\<close> and from there on the digits without the trailing zeros, a period after
  the first of them when there are more, and \<open>e+\<close> with the exponent.  It agrees with
  the runtime on texts without a period and without a negative exponent whose value has
  at most 15 digits apart from trailing zeros and is at most \<open>10 ^ 22\<close> in magnitude.
\<close>

definition example_parseFloat :: "jsstring \<Rightarrow> int option" where
  "example_parseFloat s =
     (let s1 = dropWhile is_js_space s;
          sgn = (case s1 of c # _ \<Rightarrow> if c = 45 then - 1 else 1 | [] \<Rightarrow> (1::int));
          s2 = (case s1 of c # r \<Rightarrow> if c = 45 \<or> c = 43 then r else s1 | [] \<Rightarrow> s1);
          Z = takeWhile is_digit s2;
          rest = dropWhile is_digit s2;
          ex = (case rest of
                  c # r \<Rightarrow>
                    if c = 101 \<or> c = 69
                    then takeWhile is_digit (case r of d # r2 \<Rightarrow> if d = 43 then r2 else r | [] \<Rightarrow> r)
                    else []
                | [] \<Rightarrow> [])
      in if Z = [] then None
         else Some (sgn * int (radix_value 10 Z) * 10 ^ radix_value 10 ex))"

definition example_toString :: "nat \<Rightarrow> jsstring" where
  "example_toString n =
     (if n < 10 ^ 21 then digits10 n
      else (case rev (dropWhile (\<lambda>c. c = 48) (rev (digits10 n))) of
              d # ds \<Rightarrow> (d # (if ds = [] then [] else 46 # ds)) @ [101, 43]
                         @ digits10 (length (digits10 n) - 1)
            | [] \<Rightarrow> []))"

definition example_runtime :: "int option number_runtime" where
  "example_runtime =
     \<lparr>parseFloat = example_parseFloat,
      isNaN = (\<lambda>x. x = None),
      isFinite = (\<lambda>x. x \<noteq> None),
      numberToString = (\<lambda>x. case x of
                               None \<Rightarrow> str ''NaN''
                             | Some n \<Rightarrow> if n < 0 then 45 # example_toString (nat (- n))
                                         else example_toString (nat n))\<rparr>"

text \<open>
  Two files: a header "a" with the data lines "1" and "x", and a header "a" with the
  data line "1e+21".
\<close>

definition example_csv :: jsstring where
  "example_csv = str ''a'' @ [10] @ str ''1'' @ [13, 10] @ str ''x'' @ [10]"

definition example_exponent_csv :: jsstring where
  "example_exponent_csv = str ''a'' @ [10] @ str ''1e+21''"

section \<open>The application (App)\<close>

datatype voice_action = Update | Append | Delete | Unknown

record 'n row_update =
  rowIndex :: int
  updates :: "'n Cell"

record 'n VoiceUpdateResult =
  rowUpdates :: "'n row_update list"
  action :: voice_action
  result_feedback :: jsstring

text \<open>
  The part of the component state that the table handlers touch; \<open>savedTables\<close> records
  the calls of \<open>saveTable\<close>, the latest last.
\<close>

record 'n app =
  currentTable :: "'n TableData option"
  feedback :: "jsstring option"
  savedTables :: "'n TableData list"

text \<open>
  \<open>{...x}\<close> of a row or of \<open>undefined\<close>; the element of an array at an index, which is
  \<open>undefined\<close> outside the array and at a hole; and the assignment \<open>xs[i] = v\<close> at a
  non-negative index, which extends the array with holes when \<open>i\<close> is past the end.
\<close>

definition spread :: "'n Cell option \<Rightarrow> 'n Cell" where
  "spread r = (case r of None \<Rightarrow> Map.empty | Some row \<Rightarrow> row)"

definition array_get :: "'a option list \<Rightarrow> int \<Rightarrow> 'a option" where
  "array_get xs i = (if 0 \<le> i \<and> i < int (length xs) then xs ! nat i else None)"

definition array_set :: "'a option list \<Rightarrow> nat \<Rightarrow> 'a \<Rightarrow> 'a option list" where
  "array_set xs i v =
     (if i < length xs then xs[i := Some v]
      else xs @ replicate (i - length xs) None @ [Some v])"

subsection \<open>handleVoiceUpdate\<close>

text \<open>The body of \<open>result.rowUpdates.forEach(update => ...)\<close>.\<close>

definition applyRowUpdate ::
  "voice_action \<Rightarrow> 'n row_update \<Rightarrow> 'n Cell option list \<Rightarrow> 'n Cell option list" where
  "applyRowUpdate act update newRows =
     (if rowIndex update = - 1 \<or> act = Append then newRows @ [Some (updates update)]
      else if rowIndex update \<ge> 0 \<and> rowIndex update < int (length newRows)
      then newRows[nat (rowIndex update) :=
             Some (spread (newRows ! nat (rowIndex update)) ++ updates update)]
      else newRows)"

definition handleVoiceUpdate :: "int \<Rightarrow> 'n VoiceUpdateResult \<Rightarrow> 'n app \<Rightarrow> 'n app" where
  "handleVoiceUpdate now result st =
    (case currentTable st of
       None \<Rightarrow> st
     | Some t \<Rightarrow>
        (let newRows = fold (applyRowUpdate (action result)) (rowUpdates result) (rows t);
             updatedTable = t\<lparr>rows := newRows, lastModified := now\<rparr>
         in st\<lparr>feedback := Some (result_feedback result),
                currentTable := Some updatedTable,
                savedTables := savedTables st @ [updatedTable]\<rparr>))"

subsection \<open>handleGuidedValue\<close>

text \<open>\<open>currentTable.columns.forEach(c => newRow[c.id] = "")\<close> on an empty object.\<close>

definition emptyRow :: "Column list \<Rightarrow> 'n Cell" where
  "emptyRow cols = fold (\<lambda>c newRow. newRow(col_id c \<mapsto> CStr [])) cols Map.empty"

text \<open>
  An array index is an integer from 0 to \<open>2 ^ 32 - 2\<close>.  An assignment \<open>xs[i] = v\<close>
  with any other number \<open>i\<close> sets a property of the array object that is no element
  of it, and the length and the elements stay as they are.
\<close>

definition is_array_index :: "int \<Rightarrow> bool" where
  "is_array_index i \<longleftrightarrow> 0 \<le> i \<and> i \<le> 4294967294"

text \<open>
  \<open>now1\<close> and \<open>now2\<close> are the two readings of \<open>Date.now()\<close>.  When \<open>rowIndex\<close> is
  no array index, the two assignments only set and replace such a property: the sequence
  of rows stays as it is.
\<close>

definition handleGuidedValue ::
  "int \<Rightarrow> int \<Rightarrow> int \<Rightarrow> jsstring \<Rightarrow> jsstring \<Rightarrow> 'n app \<Rightarrow> 'n app" where
  "handleGuidedValue now1 now2 rowIdx colId val st =
    (case currentTable st of
       None \<Rightarrow> st
     | Some t \<Rightarrow>
        (let newRows = rows t;
             newRows1 = (if \<not> is_array_index rowIdx then newRows
                         else case array_get newRows rowIdx of
                                None \<Rightarrow> array_set newRows (nat rowIdx) (emptyRow (columns t))
                              | Some _ \<Rightarrow> newRows);
             newRows2 = (if \<not> is_array_index rowIdx then newRows1
                         else array_set newRows1 (nat rowIdx)
                                ((spread (array_get newRows1 rowIdx))(colId \<mapsto> CStr val)))
         in st\<lparr>currentTable := Some (t\<lparr>rows := newRows2, lastModified := now1\<rparr>),
                savedTables := savedTables st @ [t\<lparr>rows := newRows2, lastModified := now2\<rparr>]\<rparr>))"

subsection \<open>A concrete table\<close>

definition example_table :: "int option TableData" where
  "example_table =
     \<lparr>table_id = str ''t1'', name = str ''Scan'', createdAt = 1, lastModified = 1,
      columns = [\<lparr>col_id = str ''c0'', label = str ''Qty'', col_type = TNumber\<rparr>,
                 \<lparr>col_id = str ''c1'', label = str ''Note'', col_type = TText\<rparr>],
      rows = [Some [str ''c0'' \<mapsto> CNum (Some 5), str ''c1'' \<mapsto> CStr (str ''ok'')]],
      workflowPlan = None\<rparr>"

definition example_app :: "int option app" where
  "example_app = \<lparr>currentTable = Some example_table, feedback = None, savedTables = []\<rparr>"

definition example_update :: "int \<Rightarrow> int option row_update" where
  "example_update i = \<lparr>rowIndex = i, updates = [str ''c0'' \<mapsto> CNum (Some 7)]\<rparr>"

section \<open>Properties of the pipeline editor\<close>

lemma splice_insert_remove:
  assumes "j \<le> length ys"
  shows "splice_remove j (splice_insert j x ys) = (Some x, ys)"
proof -
  define A where "A = take j ys"
  define B where "B = drop j ys"
  have lenA: "length A = j" using assms by (simp add: A_def)
  have ys: "ys = A @ B" by (simp add: A_def B_def)
  have ins: "splice_insert j x ys = A @ x # B"
    by (simp add: splice_insert_def A_def B_def)
  have "(A @ x # B) ! j = x" using lenA by (metis nth_append_length)
  moreover have "take j (A @ x # B) = A" using lenA by simp
  moreover have "drop (Suc j) (A @ x # B) = B" using lenA by simp
  moreover have "j < length (A @ x # B)" using lenA by simp
  ultimately show ?thesis
    unfolding splice_remove_def ins using ys by simp
qed

lemma splice_remove_insert:
  assumes "i < length xs"
  shows "splice_insert i (xs ! i) (take i xs @ drop (Suc i) xs) = xs"
  unfolding splice_insert_def using assms
  by (simp add: min_def Cons_nth_drop_Suc)

text \<open>
  C6.  Dragging the step at position i onto position j and then dragging the step at
  position j back onto position i restores the pipeline: for valid positions both
  gestures succeed and the plan after the second one is the original plan.
\<close>

theorem reorderStep_roundtrip:
  assumes "plan st = Some P" and "i < length (steps P)" and "j < length (steps P)"
  shows "\<exists>st1 st2. reorderStep i j st = Inr st1 \<and> reorderStep j i st1 = Inr st2 \<and>
           plan st2 = Some P"
proof -
  let ?rest = "take i (steps P) @ drop (Suc i) (steps P)"
  let ?st1 = "st\<lparr>plan := Some (P\<lparr>steps := splice_insert j (steps P ! i) ?rest\<rparr>),
                 draggedIdx := None\<rparr>"
  have one: "reorderStep i j st = Inr ?st1"
    using assms by (simp add: reorderStep_def onDrop_def onDragStart_def splice_remove_def)
  have two: "reorderStep j i ?st1 = Inr (?st1\<lparr>plan := Some P, draggedIdx := None\<rparr>)"
  proof -
    have "j \<le> length ?rest" using assms by simp
    from splice_insert_remove [OF this, of "steps P ! i"] splice_remove_insert [OF assms(2)]
    show ?thesis by (simp add: reorderStep_def onDrop_def onDragStart_def)
  qed
  show ?thesis using one two by simp
qed

theorem reorderStep_roundtrip_witness:
  "\<exists>st1 st2. reorderStep 0 2 example_wizard = Inr st1 \<and> reorderStep 2 0 st1 = Inr st2 \<and>
      plan st2 = Some example_plan"
proof -
  have h1: "plan example_wizard = Some example_plan" by (simp add: example_wizard_def)
  have h2: "0 < length (steps example_plan)" by (simp add: example_plan_def)
  have h3: "2 < length (steps example_plan)" by (simp add: example_plan_def)
  show ?thesis by (rule reorderStep_roundtrip [OF h1 h2 h3])
qed

subsection \<open>Rounding\<close>

lemma excess_bits_small: "m < 2 ^ 53 \<Longrightarrow> excess_bits m = 0"
  by (subst excess_bits.simps) simp

lemma excess_bits_step: "\<not> m < 2 ^ 53 \<Longrightarrow> excess_bits m = Suc (excess_bits (m div 2))"
  by (subst excess_bits.simps) simp

lemma round_nat_exact:
  assumes "m \<le> 2 ^ 53"
  shows "round_nat m = m"
proof (cases "m < 2 ^ 53")
  case True
  then show ?thesis by (simp add: round_nat_def excess_bits_small)
next
  case False
  hence m: "m = 2 ^ 53" using assms by simp
  have e: "excess_bits m = 1"
    unfolding m by (simp add: excess_bits_step excess_bits_small)
  show ?thesis unfolding round_nat_def e by (simp add: m)
qed

lemma double_of_int_exact:
  assumes "\<bar>x\<bar> \<le> 2 ^ 53"
  shows "double_of_int x = x"
proof -
  have "nat \<bar>x\<bar> \<le> 2 ^ 53" using assms by (simp add: nat_le_iff)
  hence "round_nat (nat \<bar>x\<bar>) = nat \<bar>x\<bar>" by (rule round_nat_exact)
  thus ?thesis by (simp add: double_of_int_def mult_sgn_abs)
qed

lemma double_of_int_tie: "double_of_int (2 ^ 53 + 1) = 2 ^ 53"
proof -
  have e: "excess_bits (2 ^ 53 + 1) = 1"
    by (simp add: excess_bits_step excess_bits_small)
  have "round_nat (2 ^ 53 + 1) = 2 ^ 53"
    unfolding round_nat_def e by simp
  moreover have "nat \<bar>2 ^ 53 + 1 :: int\<bar> = 2 ^ 53 + 1" by simp
  ultimately show ?thesis by (simp add: double_of_int_def)
qed

subsection \<open>The duplicate offset\<close>

lemma Math_min_Min: "Math_min r rs = Min (set (r # rs))"
  unfolding Math_min_def by (simp only: Min.set_eq_fold)

lemma Math_max_Max: "Math_max r rs = Max (set (r # rs))"
  unfolding Math_max_def by (simp only: Max.set_eq_fold)

lemma spec_offset_pos: "rs \<noteq> [] \<Longrightarrow> 1 \<le> spec_offset rs"
  unfolding spec_offset_def by (simp add: Min_le_iff)

lemma pow2_numerals:
  "(2::int) ^ 51 = 2251799813685248" "(2::int) ^ 52 = 4503599627370496"
  "(2::int) ^ 53 = 9007199254740992"
  by simp_all

lemma exact_is_finite: "\<bar>x\<bar> \<le> 2 ^ 53 \<Longrightarrow> is_finite x"
proof -
  assume "\<bar>x\<bar> \<le> 2 ^ 53"
  moreover have "(2::int) ^ 53 < 2 ^ 1024" by (rule power_strict_increasing) simp_all
  ultimately show ?thesis unfolding is_finite_def by linarith
qed

lemma spec_offset_le:
  fixes rs :: "int list"
  assumes "rs \<noteq> []"
    and "\<forall>x\<in>set rs. \<bar>x\<bar> \<le> 2 ^ 53 \<and> \<bar>x + spec_offset rs\<bar> \<le> 2 ^ 53"
  shows "spec_offset rs \<le> 2 ^ 53"
proof -
  have mn: "Min (set rs) \<in> set rs" and mx: "Max (set rs) \<in> set rs"
    using assms(1) by simp_all
  have a: "\<bar>Min (set rs)\<bar> \<le> 2 ^ 53" and b: "\<bar>Max (set rs) + spec_offset rs\<bar> \<le> 2 ^ 53"
    using assms(2) mn mx by blast+
  show ?thesis
  proof (cases "0 \<le> Max (set rs)")
    case True
    thus ?thesis using b by linarith
  next
    case False
    thus ?thesis using a unfolding spec_offset_def by linarith
  qed
qed

lemma smartOffset_spec:
  assumes "spec_offset (r # rs) \<le> 2 ^ 53"
  shows "js_sub (Math_max r rs) (Math_min r rs) = Max (set (r # rs)) - Min (set (r # rs))"
    and "smartOffset (Math_min r rs) (Math_max r rs) = spec_offset (r # rs)"
proof -
  let ?d = "Max (set (r # rs)) - Min (set (r # rs))"
  have "Min (set (r # rs)) \<le> r" by (rule Min_le) simp_all
  moreover have "r \<le> Max (set (r # rs))" by (rule Max_ge) simp_all
  ultimately have d0: "0 \<le> ?d" by linarith
  have d1: "?d + 1 \<le> 2 ^ 53" using assms by (simp add: spec_offset_def)
  have "\<bar>?d\<bar> \<le> 2 ^ 53" using d0 d1 by linarith
  thus sub: "js_sub (Math_max r rs) (Math_min r rs) = ?d"
    unfolding js_sub_def Math_min_Min Math_max_Max by (rule double_of_int_exact)
  have "\<bar>?d + 1\<bar> \<le> 2 ^ 53" using d0 d1 by linarith
  hence add: "js_add ?d 1 = ?d + 1" unfolding js_add_def by (rule double_of_int_exact)
  have "?d + 1 \<noteq> 0" using d0 by linarith
  thus "smartOffset (Math_min r rs) (Math_max r rs) = spec_offset (r # rs)"
    unfolding smartOffset_def sub add spec_offset_def by (simp add: Let_def)
qed

lemma sorted_list_of_fset_nonempty: "S \<noteq> {||} \<Longrightarrow> sorted_list_of_fset S \<noteq> []"
  by (metis sorted_list_of_fset_simps(2) fset_of_list_simps(1))

text \<open>
  C1 (as amended).  For a non-empty selection of positions of the plan whose rows, and
  whose rows increased by the offset, are at most 2 ^ 53 in magnitude, duplicateSelected
  appends one copy per selected step to the end of the steps, in ascending order of the
  selected positions; the k-th copy is the k-th selected step with a fresh id and with
  targetRowIndex increased by the offset (max - min) + 1 of the selected rows.  The
  offset is at least 1, and it is exactly 1 when min = max.
\<close>

theorem duplicateSelected_offset:
  assumes "plan st = Some p" and "selectedIndices st \<noteq> {||}"
    and "\<forall>i. i |\<in>| selectedIndices st \<longrightarrow> i < length (steps p)"
    and "\<forall>i. i |\<in>| selectedIndices st \<longrightarrow>
           \<bar>targetRowIndex (steps p ! i)\<bar> \<le> 2 ^ 53 \<and>
           \<bar>targetRowIndex (steps p ! i) + spec_offset (selectedRows p (selectedIndices st))\<bar>
             \<le> 2 ^ 53"
  shows "\<exists>dups.
      duplicateSelected freshId st
        = Inr (st\<lparr>plan := Some (p\<lparr>steps := steps p @ dups\<rparr>), selectedIndices := {||}\<rparr>) \<and>
      length dups = length (sorted_list_of_fset (selectedIndices st)) \<and>
      (\<forall>k < length dups.
         dups ! k = (steps p ! (sorted_list_of_fset (selectedIndices st) ! k))
            \<lparr>step_id := freshId k,
             targetRowIndex := targetRowIndex (steps p ! (sorted_list_of_fset (selectedIndices st) ! k))
                + spec_offset (selectedRows p (selectedIndices st))\<rparr>) \<and>
      1 \<le> spec_offset (selectedRows p (selectedIndices st)) \<and>
      (Min (set (selectedRows p (selectedIndices st))) = Max (set (selectedRows p (selectedIndices st)))
         \<longrightarrow> spec_offset (selectedRows p (selectedIndices st)) = 1)"
proof -
  define sel where "sel = sorted_list_of_fset (selectedIndices st)"
  define ss where "ss = map (\<lambda>i. steps p ! i) sel"
  define srows where "srows = selectedRows p (selectedIndices st)"
  define off where "off = spec_offset srows"
  define dups where "dups = map (\<lambda>(k, step). step\<lparr>step_id := freshId k,
                       targetRowIndex := targetRowIndex step + off\<rparr>) (enumerate 0 ss)"
  have sel_ne: "sel \<noteq> []" unfolding sel_def using assms(2) by (rule sorted_list_of_fset_nonempty)
  have inrange: "\<not> list_ex (\<lambda>i. \<not> i < length (steps p)) sel"
    using assms(3) by (simp add: sel_def list_ex_iff)
  have rows_map: "srows = map targetRowIndex ss"
    by (simp add: srows_def selectedRows_def sel_def ss_def)
  have small: "\<forall>x\<in>set srows. \<bar>x\<bar> \<le> 2 ^ 53 \<and> \<bar>x + off\<bar> \<le> 2 ^ 53"
    using assms(4) by (auto simp: off_def srows_def selectedRows_def)
  obtain r rs where rr: "srows = r # rs" using sel_ne rows_map by (cases srows) (auto simp: ss_def)
  have srows_ne: "srows \<noteq> []" by (simp add: rr)
  have pos: "1 \<le> off" unfolding off_def using srows_ne by (rule spec_offset_pos)
  have off_le: "off \<le> 2 ^ 53"
    unfolding off_def using srows_ne small [unfolded off_def] by (rule spec_offset_le)
  note so = smartOffset_spec [OF off_le [unfolded off_def rr]]
  have off_eq: "smartOffset (Math_min r rs) (Math_max r rs) = off"
    by (simp add: so(2) off_def rr)
  have off_fin: "is_finite off"
    by (rule exact_is_finite) (use pos off_le in linarith)
  have sub_fin: "is_finite (js_sub (Math_max r rs) (Math_min r rs))"
  proof (rule exact_is_finite)
    have "js_sub (Math_max r rs) (Math_min r rs) = off - 1"
      unfolding so(1) by (simp add: off_def spec_offset_def rr)
    thus "\<bar>js_sub (Math_max r rs) (Math_min r rs)\<bar> \<le> 2 ^ 53" using pos off_le by linarith
  qed
  have sum_small: "\<bar>x + off\<bar> \<le> 2 ^ 53" if "x \<in> set srows" for x
    using small that by blast
  have add_exact: "js_add (targetRowIndex s) off = targetRowIndex s + off" if "s \<in> set ss" for s
  proof -
    have "targetRowIndex s \<in> set srows" using that by (simp add: rows_map)
    thus ?thesis unfolding js_add_def by (intro double_of_int_exact sum_small)
  qed
  have new_eq: "map (\<lambda>(k, step). step\<lparr>step_id := freshId k,
                       targetRowIndex := js_add (targetRowIndex step) off\<rparr>) (enumerate 0 ss) = dups"
    unfolding dups_def
  proof (rule map_cong [OF refl])
    fix x assume x: "x \<in> set (enumerate 0 ss)"
    hence "fst x < length ss" and "ss ! fst x = snd x" by (simp_all add: in_set_enumerate_eq)
    hence "snd x \<in> set ss" using nth_mem by metis
    from add_exact [OF this] show "(case x of (k, step) \<Rightarrow> step\<lparr>step_id := freshId k,
                       targetRowIndex := js_add (targetRowIndex step) off\<rparr>)
        = (case x of (k, step) \<Rightarrow> step\<lparr>step_id := freshId k,
                       targetRowIndex := targetRowIndex step + off\<rparr>)"
      by (cases x) simp
  qed
  have len: "length dups = length sel" by (simp add: dups_def ss_def)
  have nth: "\<forall>k < length dups. dups ! k = (steps p ! (sel ! k))
            \<lparr>step_id := freshId k, targetRowIndex := targetRowIndex (steps p ! (sel ! k)) + off\<rparr>"
    by (simp add: dups_def ss_def nth_enumerate_eq)
  have dups_fin: "list_all (\<lambda>s. is_finite (targetRowIndex s)) dups"
    unfolding list_all_length
  proof (intro allI impI)
    fix k assume k: "k < length dups"
    hence ks: "k < length sel" using len by simp
    have "targetRowIndex (steps p ! (sel ! k)) \<in> set srows"
      using ks by (simp add: rows_map ss_def)
    hence "\<bar>targetRowIndex (steps p ! (sel ! k)) + off\<bar> \<le> 2 ^ 53" by (rule sum_small)
    hence "is_finite (targetRowIndex (steps p ! (sel ! k)) + off)" by (rule exact_is_finite)
    thus "is_finite (targetRowIndex (dups ! k))" using nth k by simp
  qed
  have run: "duplicateSelected freshId st
        = Inr (st\<lparr>plan := Some (p\<lparr>steps := steps p @ dups\<rparr>), selectedIndices := {||}\<rparr>)"
    unfolding duplicateSelected_def
    using assms(1,2) inrange off_fin sub_fin dups_fin
    by (simp add: Let_def sel_def [symmetric] ss_def [symmetric] rows_map [symmetric] rr off_eq
          new_eq del: map_map)
  have one: "Min (set srows) = Max (set srows) \<longrightarrow> off = 1"
    by (simp add: off_def spec_offset_def)
  show ?thesis
    apply (rule exI [of _ dups])
    apply (fold sel_def srows_def)
    apply (fold off_def)
    apply (intro conjI)
    apply (rule run, rule len, rule nth, rule pos, rule one)
    done
qed

theorem duplicateSelected_offset_witness:
  "\<exists>st' p'. duplicateSelected example_freshId example_wizard = Inr st' \<and> plan st' = Some p' \<and>
      map targetRowIndex (steps p') = [3, 4, 7, 5, 6]"
proof -
  have h1: "plan example_wizard = Some example_plan" by (simp add: example_wizard_def)
  have h2: "selectedIndices example_wizard \<noteq> {||}" by (simp add: example_wizard_def)
  have h3: "\<forall>i. i |\<in>| selectedIndices example_wizard \<longrightarrow> i < length (steps example_plan)"
    by (auto simp: example_wizard_def example_plan_def)
  have sel: "sorted_list_of_fset (selectedIndices example_wizard) = [0, 1]"
    by (simp add: example_wizard_def sorted_list_of_fset.rep_eq)
  have off: "spec_offset (selectedRows example_plan (selectedIndices example_wizard)) = 2"
    by (simp add: selectedRows_def sel spec_offset_def example_plan_def example_step_def)
  have h4: "\<forall>i. i |\<in>| selectedIndices example_wizard \<longrightarrow>
              \<bar>targetRowIndex (steps example_plan ! i)\<bar> \<le> 2 ^ 53 \<and>
              \<bar>targetRowIndex (steps example_plan ! i)
                 + spec_offset (selectedRows example_plan (selectedIndices example_wizard))\<bar>
                \<le> 2 ^ 53"
    unfolding off by (auto simp: example_wizard_def example_plan_def example_step_def)
  from duplicateSelected_offset [OF h1 h2 h3 h4, of example_freshId]
  obtain dups where
    run: "duplicateSelected example_freshId example_wizard
        = Inr (example_wizard\<lparr>plan := Some (example_plan\<lparr>steps := steps example_plan @ dups\<rparr>),
                 selectedIndices := {||}\<rparr>)"
    and len: "length dups = 2"
    and nth: "\<forall>k < length dups. targetRowIndex (dups ! k)
                = targetRowIndex (steps example_plan ! ([0, 1] ! k)) + 2"
    unfolding sel off by auto
  have "targetRowIndex (dups ! 0) = 5" "targetRowIndex (dups ! 1) = 6"
    using nth len by (simp_all add: example_plan_def example_step_def)
  moreover obtain d0 d1 where "dups = [d0, d1]"
    using len by (metis (no_types) length_0_conv length_Suc_conv numeral_2_eq_2)
  ultimately have "map targetRowIndex dups = [5, 6]" by simp
  thus ?thesis using run by (simp add: example_plan_def example_step_def)
qed

text \<open>
  C1 as stated fails beyond 2 ^ 53: for the single selected step at row
  9007199254740992 the offset is 1, and the sum 9007199254740993 is no double; it is
  rounded to 9007199254740992, so the copy has the row of the original.
\<close>

theorem duplicateSelected_offset_counterexample:
  "(\<exists>st' p'. duplicateSelected example_freshId large_wizard = Inr st' \<and> plan st' = Some p' \<and>
      map targetRowIndex (steps p') = [9007199254740992, 9007199254740992]) \<and>
   sorted_list_of_fset (selectedIndices large_wizard) = [0] \<and>
   spec_offset [9007199254740992] = 1"
proof -
  have sel: "sorted_list_of_fset {|0::nat|} = [0]" by (simp add: sorted_list_of_fset.rep_eq)
  have sub: "js_sub 9007199254740992 9007199254740992 = 0"
    by (simp add: js_sub_def double_of_int_def)
  have "double_of_int 1 = 1" by (rule double_of_int_exact) simp
  hence one: "js_add 0 1 = 1" by (simp add: js_add_def)
  have tie: "js_add 9007199254740992 1 = 9007199254740992"
    using double_of_int_tie by (simp add: js_add_def)
  have fin: "is_finite 1" "is_finite 0" "is_finite 9007199254740992"
    by (rule exact_is_finite, simp)+
  have run: "\<exists>st' p'. duplicateSelected example_freshId large_wizard = Inr st' \<and>
      plan st' = Some p' \<and>
      map targetRowIndex (steps p') = [9007199254740992, 9007199254740992]"
    by (simp add: duplicateSelected_def large_wizard_def sel example_step_def Math_min_def
        Math_max_def smartOffset_def sub one tie fin Let_def)
  have s: "sorted_list_of_fset (selectedIndices large_wizard) = [0]"
    by (simp add: large_wizard_def sel)
  have o: "spec_offset [9007199254740992] = 1" by (simp add: spec_offset_def)
  show ?thesis by (intro conjI) (rule run, rule s, rule o)
qed

subsection \<open>The edited row number\<close>
















section \<open>Properties of the guided session\<close>

lemma includes_str_nonempty: "includes_str s w \<Longrightarrow> w \<noteq> [] \<Longrightarrow> s \<noteq> []"
  by (cases s) auto

lemma stopWords_nonempty: "w \<in> set (stopWords language) \<Longrightarrow> w \<noteq> []"
  by (cases language) (auto simp: stopWords_def str_def)

lemma nextStep_no_write: "ValueReceived r c v \<notin> set (fst (nextStep workflow language st))"
  by (simp add: nextStep_def)

text \<open>
  C2.  When the trimmed, lower-cased utterance contains a stop word of the session's
  language, handleResult logs it and calls onClose, and nothing else: the session is
  finished, its state is untouched and no table write is emitted, whatever else the
  utterance contains (a number, a skip word) and whatever the current step is.
\<close>

theorem stop_word_wins:
  assumes "w \<in> set (stopWords language)" and "includes_str (toLowerCase (trim utterance)) w"
  shows "handleResult toLowerCase workflow language utterance st
           = ([Log (str ''User said: '' @ [34] @ toLowerCase (trim utterance) @ [34]), Close], Inr st) \<and>
         (\<forall>r c v. ValueReceived r c v \<notin> set (fst (handleResult toLowerCase workflow language utterance st)))"
proof -
  have ne: "toLowerCase (trim utterance) \<noteq> []"
    using assms includes_str_nonempty stopWords_nonempty by blast
  have stop: "list_ex (\<lambda>w. includes_str (toLowerCase (trim utterance)) w) (stopWords language)"
    using assms by (auto simp: list_ex_iff)
  have run: "handleResult toLowerCase workflow language utterance st
           = ([Log (str ''User said: '' @ [34] @ toLowerCase (trim utterance) @ [34]), Close], Inr st)"
    unfolding handleResult_def using ne stop by (simp add: Let_def)
  show ?thesis unfolding run by simp
qed

lemma trim_example: "trim (str '' Stop 42 next '') = str ''Stop 42 next''"
  by (simp add: trim_def str_def is_js_space_def)

theorem stop_word_wins_witness:
  "handleResult basic_toLowerCase example_plan En (str '' Stop 42 next '') example_session
     = ([Log (str ''User said: '' @ [34] @ str ''stop 42 next'' @ [34]), Close], Inr example_session)"
proof -
  have lc: "basic_toLowerCase (trim (str '' Stop 42 next '')) = str ''stop 42 next''"
    by (simp add: trim_example) (simp add: basic_toLowerCase_def str_def)
  have h1: "str ''stop'' \<in> set (stopWords En)" by (simp add: stopWords_def)
  have h2: "includes_str (basic_toLowerCase (trim (str '' Stop 42 next ''))) (str ''stop'')"
    unfolding lc by (simp add: str_def startsWith_def)
  from stop_word_wins [where toLowerCase = basic_toLowerCase and language = En
      and utterance = "str '' Stop 42 next ''" and w = "str ''stop''", OF h1 h2]
  show ?thesis unfolding lc by simp
qed

subsection \<open>Written values\<close>

lemma match_unsigned_None_iff: "match_unsigned s = None \<longleftrightarrow> (case s of [] \<Rightarrow> True | c # _ \<Rightarrow> \<not> is_digit c)"
  by (cases s) (auto simp: match_unsigned_def Let_def)

lemma match_here_None_iff:
  "match_here (c # cs) = None \<longleftrightarrow>
     (if c = 45 then (case cs of [] \<Rightarrow> True | d # _ \<Rightarrow> \<not> is_digit d) else \<not> is_digit c)"
proof -
  have "(case match_unsigned cs of Some m \<Rightarrow> Some (c # m) | None \<Rightarrow> None) = None
          \<longleftrightarrow> match_unsigned cs = None"
    by (simp split: option.splits)
  thus ?thesis by (simp add: match_here_def match_unsigned_None_iff)
qed

lemma match_number_None_iff: "match_number s = None \<longleftrightarrow> (\<forall>c\<in>set s. \<not> is_digit c)"
proof (induction s)
  case Nil
  show ?case by simp
next
  case (Cons c cs)
  have minus: "\<not> is_digit 45" by (simp add: is_digit_def)
  have "match_number (c # cs) = None \<longleftrightarrow> match_here (c # cs) = None \<and> match_number cs = None"
    by (simp split: option.splits)
  also have "\<dots> \<longleftrightarrow> match_here (c # cs) = None \<and> (\<forall>x\<in>set cs. \<not> is_digit x)"
    using Cons.IH by simp
  also have "\<dots> \<longleftrightarrow> \<not> is_digit c \<and> (\<forall>x\<in>set cs. \<not> is_digit x)"
    using minus by (cases cs) (auto simp: match_here_None_iff)
  finally show ?case by simp
qed

lemma set_replace_first: "set (replace_first a b s) \<subseteq> insert b (set s)"
  by (induction s) auto

lemma numberValue_no_digit:
  assumes "\<forall>c\<in>set s. \<not> is_digit c"
  shows "numberValue s = s"
proof -
  have "\<not> is_digit 46" by (simp add: is_digit_def)
  hence "\<forall>c\<in>set (replace_first 44 46 s). \<not> is_digit c"
    using assms set_replace_first [of 44 46 s] by auto
  hence "match_number (replace_first 44 46 s) = None" by (simp add: match_number_None_iff)
  thus ?thesis by (simp add: numberValue_def)
qed

lemma numberValue_decimal_comma: "numberValue (str ''12,5'') = str ''12.5''"
  by (simp add: numberValue_def str_def match_here_def match_unsigned_def is_digit_def)

lemma handleResult_value:
  assumes "toLowerCase (trim utterance) \<noteq> []"
    and "\<forall>w\<in>set (stopWords language). \<not> includes_str (toLowerCase (trim utterance)) w"
    and "\<forall>w\<in>set (nextWords language). \<not> includes_str (toLowerCase (trim utterance)) w"
    and "currentStep workflow st = Some step"
  shows "handleResult toLowerCase workflow language utterance st
     = (Log (str ''User said: '' @ [34] @ toLowerCase (trim utterance) @ [34])
          # ValueReceived (targetRowIndex step) (targetColumnId step)
              (if expectedType step = ExpNumber then numberValue (toLowerCase (trim utterance))
               else toLowerCase (trim utterance))
          # fst (nextStep workflow language st),
        Inr (snd (nextStep workflow language st)))"
proof -
  have ns: "\<not> list_ex (\<lambda>w. includes_str (toLowerCase (trim utterance)) w) (stopWords language)"
    using assms(2) by (simp add: list_ex_iff)
  have nn: "\<not> list_ex (\<lambda>w. includes_str (toLowerCase (trim utterance)) w) (nextWords language)"
    using assms(3) by (simp add: list_ex_iff)
  show ?thesis
    unfolding handleResult_def using assms(1,4) ns nn
    by (simp add: Let_def split: prod.splits)
qed

text \<open>
  C10.  When the utterance is not empty after trimming, holds no stop and no skip word,
  and the current step is text-typed, or number-typed while the clean text has no digit
  (so that no numeric substring is found), the value written to the step's row and
  column is exactly the trimmed, lower-cased utterance, and the session moves on.
\<close>

theorem written_value_is_clean_text:
  assumes "toLowerCase (trim utterance) \<noteq> []"
    and "\<forall>w\<in>set (stopWords language). \<not> includes_str (toLowerCase (trim utterance)) w"
    and "\<forall>w\<in>set (nextWords language). \<not> includes_str (toLowerCase (trim utterance)) w"
    and "currentStep workflow st = Some step"
    and "expectedType step = ExpText \<or>
         (expectedType step = ExpNumber \<and> (\<forall>c\<in>set (toLowerCase (trim utterance)). \<not> is_digit c))"
  shows "handleResult toLowerCase workflow language utterance st
     = (Log (str ''User said: '' @ [34] @ toLowerCase (trim utterance) @ [34])
          # ValueReceived (targetRowIndex step) (targetColumnId step) (toLowerCase (trim utterance))
          # fst (nextStep workflow language st),
        Inr (snd (nextStep workflow language st)))"
proof -
  have "(if expectedType step = ExpNumber then numberValue (toLowerCase (trim utterance))
         else toLowerCase (trim utterance)) = toLowerCase (trim utterance)"
    using assms(5) numberValue_no_digit by auto
  thus ?thesis
    using handleResult_value [where toLowerCase = toLowerCase and utterance = utterance,
        OF assms(1-4)]
    by simp
qed

theorem written_value_is_clean_text_witness:
  "handleResult basic_toLowerCase example_plan Ru example_utterance example_session
     = ([Log (str ''User said: '' @ [34] @ example_clean @ [34]),
         ValueReceived 3 (str ''col_0'') example_clean],
        Inr (example_session\<lparr>currentStepIndex := 1, transcript := []\<rparr>))"
proof -
  have lc: "basic_toLowerCase (trim example_utterance) = example_clean"
    by (simp add: trim_def example_utterance_def is_js_space_def basic_toLowerCase_def example_clean_def)
  have h1: "basic_toLowerCase (trim example_utterance) \<noteq> []"
    unfolding lc by (simp add: example_clean_def)
  have h2: "\<forall>w\<in>set (stopWords Ru). \<not> includes_str (basic_toLowerCase (trim example_utterance)) w"
    unfolding lc by (simp add: stopWords_def example_clean_def startsWith_def)
  have h3: "\<forall>w\<in>set (nextWords Ru). \<not> includes_str (basic_toLowerCase (trim example_utterance)) w"
    unfolding lc by (simp add: nextWords_def example_clean_def startsWith_def)
  have h4: "currentStep example_plan example_session = Some (example_step 0 3)"
    by (simp add: currentStep_def example_plan_def example_session_def)
  have h5: "expectedType (example_step 0 3) = ExpText \<or>
         (expectedType (example_step 0 3) = ExpNumber \<and>
          (\<forall>c\<in>set (basic_toLowerCase (trim example_utterance)). \<not> is_digit c))"
    unfolding lc by (simp add: example_step_def example_clean_def is_digit_def)
  have ns: "nextStep example_plan Ru example_session
              = ([], example_session\<lparr>currentStepIndex := 1, transcript := []\<rparr>)"
    by (simp add: nextStep_def example_plan_def example_session_def)
  from written_value_is_clean_text [where toLowerCase = basic_toLowerCase
      and utterance = example_utterance, OF h1 h2 h3 h4 h5]
  show ?thesis unfolding lc ns by (simp add: example_step_def)
qed

text \<open>
  C3.  The number cleanup at an utterance with a comma before the number (the Russian for
  "yes, 12,5", on a number-typed step): only the first comma becomes a period, so
  the value written is "12", where replacing the decimal comma gives "12.5".
\<close>

theorem number_cleanup_first_comma_only:
  "handleResult basic_toLowerCase example_plan Ru example_comma_utterance example_session
     = ([Log (str ''User said: '' @ [34] @ example_comma_utterance @ [34]),
         ValueReceived 3 (str ''col_0'') (str ''12'')],
        Inr (example_session\<lparr>currentStepIndex := 1, transcript := []\<rparr>)) \<and>
   spec_numberValue example_comma_utterance = str ''12.5''"
proof -
  have lc: "basic_toLowerCase (trim example_comma_utterance) = example_comma_utterance"
    by (simp add: trim_def example_comma_utterance_def is_js_space_def basic_toLowerCase_def)
  have h1: "basic_toLowerCase (trim example_comma_utterance) \<noteq> []"
    unfolding lc by (simp add: example_comma_utterance_def)
  have h2: "\<forall>w\<in>set (stopWords Ru). \<not> includes_str (basic_toLowerCase (trim example_comma_utterance)) w"
    unfolding lc by (simp add: stopWords_def example_comma_utterance_def startsWith_def)
  have h3: "\<forall>w\<in>set (nextWords Ru). \<not> includes_str (basic_toLowerCase (trim example_comma_utterance)) w"
    unfolding lc by (simp add: nextWords_def example_comma_utterance_def startsWith_def)
  have h4: "currentStep example_plan example_session = Some (example_step 0 3)"
    by (simp add: currentStep_def example_plan_def example_session_def)
  have ns: "nextStep example_plan Ru example_session
              = ([], example_session\<lparr>currentStepIndex := 1, transcript := []\<rparr>)"
    by (simp add: nextStep_def example_plan_def example_session_def)
  have nv: "numberValue example_comma_utterance = str ''12''"
    by (simp add: numberValue_def example_comma_utterance_def str_def match_here_def
        match_unsigned_def is_digit_def)
  have sv: "spec_numberValue example_comma_utterance = str ''12.5''"
    by (simp add: spec_numberValue_def example_comma_utterance_def str_def match_here_def
        match_unsigned_def is_digit_def)
  from handleResult_value [where toLowerCase = basic_toLowerCase
      and utterance = example_comma_utterance, OF h1 h2 h3 h4]
  show ?thesis unfolding lc ns nv using sv by (simp add: example_step_def)
qed

section \<open>Properties of the CSV import\<close>

lemma digits10_small: "n < 10 \<Longrightarrow> digits10 n = [48 + n]"
  by (subst digits10.simps) simp
lemma ex_lines: "csv_lines example_csv = [str ''a'', str ''1'', str ''x'']"
  by (simp add: csv_lines_def example_csv_def str_def trim_def is_js_space_def)
lemma ex_fields: "csv_fields (str ''a'') = [str ''a'']" "csv_fields (str ''1'') = [str ''1'']" "csv_fields (str ''x'') = [str ''x'']"
  by (simp_all add: csv_fields_def str_def trim_def is_js_space_def strip_quotes_def)
lemma digits10_step: "10 \<le> n \<Longrightarrow> digits10 n = digits10 (n div 10) @ [48 + n mod 10]"
  by (subst digits10.simps) simp

lemma digits10_pow10: "digits10 (10 ^ k) = 49 # replicate k 48"
proof (induction k)
  case 0
  show ?case by (simp add: digits10_small)
next
  case (Suc k)
  have "(10::nat) \<le> 10 ^ Suc k" by simp
  hence "digits10 (10 ^ Suc k) = digits10 (10 ^ Suc k div 10) @ [48 + 10 ^ Suc k mod 10]"
    by (rule digits10_step)
  also have "\<dots> = digits10 (10 ^ k) @ [48]" by simp
  also have "\<dots> = 49 # replicate (Suc k) 48"
    unfolding Suc.IH by (simp add: replicate_append_same)
  finally show ?case .
qed

lemma example_toString_small: "n < 10 \<Longrightarrow> example_toString n = [48 + n]"
proof -
  assume n: "n < 10"
  have "(10::nat) \<le> 10 ^ 21" by simp
  hence "n < 10 ^ 21" using n by linarith
  thus ?thesis using n by (simp add: example_toString_def digits10_small)
qed

lemma example_toString_exponent: "example_toString (10 ^ 21) = str ''1e+21''"
proof -
  have d: "digits10 (10 ^ 21) = 49 # replicate 21 48" by (rule digits10_pow10)
  have "dropWhile (\<lambda>c. c = 48) (replicate 21 (48::nat) @ [49]) = [49]"
    by (subst dropWhile_append2) simp_all
  hence r: "rev (dropWhile (\<lambda>c. c = 48) (rev (49 # replicate 21 (48::nat)))) = [49]"
    by simp
  have e: "digits10 21 = [50, 49]" by (simp add: digits10_step digits10_small)
  show ?thesis
    unfolding example_toString_def d r by (simp add: e str_def)
qed

lemma example_parse_exponent: "example_parseFloat (str ''1e+21'') = Some (10 ^ 21)"
  by (simp add: example_parseFloat_def str_def is_js_space_def is_digit_def radix_value_def
      digit_value_def)

lemma ex_numeric:
  "looksNumeric example_runtime (str ''1'')" "\<not> looksNumeric example_runtime (str ''x'')"
  by (simp_all add: looksNumeric_def example_runtime_def example_parseFloat_def str_def
        is_js_space_def is_digit_def radix_value_def digit_value_def example_toString_small)

lemma ex_exponent_numeric: "looksNumeric example_runtime (str ''1e+21'')"
proof -
  have p: "(10::nat) ^ 21 = 1000000000000000000000" by simp
  have t: "example_toString 1000000000000000000000 = str ''1e+21''"
    using example_toString_exponent unfolding p .
  show ?thesis
    unfolding looksNumeric_def Let_def
    by (simp add: example_runtime_def example_parse_exponent t)
qed

lemma fillRow_fst_Cons:
  "fst (fillRow rt vs idx (col # cols) row) =
     (if col_type col = TText \<and> looksNumeric rt (field_at vs idx)
      then col\<lparr>col_type := TNumber\<rparr> else col)
     # fst (fillRow rt vs (idx + 1) cols
          (row(col_id col \<mapsto> (if looksNumeric rt (field_at vs idx)
                                then CNum (parseFloat rt (field_at vs idx))
                                else CStr (field_at vs idx)))))"
  by (simp add: Let_def split: prod.splits)

lemma fillRow_length: "length (fst (fillRow rt vs idx cols row)) = length cols"
proof (induction cols arbitrary: idx row)
  case Nil
  show ?case by simp
next
  case (Cons col cols)
  show ?case unfolding fillRow_fst_Cons using Cons.IH by simp
qed

lemma fillRow_nth:
  "i < length cols \<Longrightarrow>
   fst (fillRow rt vs idx cols row) ! i =
     (if col_type (cols ! i) = TText \<and> looksNumeric rt (field_at vs (idx + i))
      then (cols ! i)\<lparr>col_type := TNumber\<rparr> else cols ! i)"
proof (induction cols arbitrary: idx row i)
  case Nil
  then show ?case by simp
next
  case (Cons col cols)
  show ?case
  proof (cases i)
    case 0
    then show ?thesis unfolding fillRow_fst_Cons by simp
  next
    case (Suc j)
    hence j: "j < length cols" using Cons.prems by simp
    have eq: "idx + 1 + j = idx + i" using Suc by simp
    show ?thesis
      unfolding fillRow_fst_Cons Suc nth_Cons_Suc Cons.IH [OF j] eq [unfolded Suc] ..
  qed
qed

lemma parseRows_fst_Cons:
  "fst (parseRows rt (l # ls) cols)
     = fst (parseRows rt ls (fst (fillRow rt (csv_fields l) 0 cols Map.empty)))"
  by (simp split: prod.splits)

lemma parseRows_length: "length (fst (parseRows rt ls cols)) = length cols"
proof (induction ls arbitrary: cols)
  case Nil
  show ?case by simp
next
  case (Cons l ls)
  show ?case unfolding parseRows_fst_Cons Cons.IH by (rule fillRow_length)
qed

lemma upgrade_twice:
  fixes c :: Column
  assumes "c' = (if col_type c = TText \<and> B then c\<lparr>col_type := TNumber\<rparr> else c)"
  shows "(if col_type c' = TText \<and> C then c'\<lparr>col_type := TNumber\<rparr> else c')
       = (if col_type c = TText \<and> (B \<or> C) then c\<lparr>col_type := TNumber\<rparr> else c)"
proof (cases "col_type c = TText \<and> B")
  case True
  hence "c' = c\<lparr>col_type := TNumber\<rparr>" using assms by simp
  thus ?thesis using True by simp
next
  case False
  hence "c' = c" using assms by simp
  thus ?thesis using False by (cases "col_type c = TText") simp_all
qed

lemma parseRows_nth:
  "i < length cols \<Longrightarrow>
   fst (parseRows rt ls cols) ! i =
     (if col_type (cols ! i) = TText \<and> (\<exists>l\<in>set ls. looksNumeric rt (field_at (csv_fields l) i))
      then (cols ! i)\<lparr>col_type := TNumber\<rparr> else cols ! i)"
proof (induction ls arbitrary: cols)
  case Nil
  show ?case by simp
next
  case (Cons l ls)
  define cols' where "cols' = fst (fillRow rt (csv_fields l) 0 cols Map.empty)"
  define B where "B \<longleftrightarrow> looksNumeric rt (field_at (csv_fields l) i)"
  define C where "C \<longleftrightarrow> (\<exists>l\<in>set ls. looksNumeric rt (field_at (csv_fields l) i))"
  have len: "length cols' = length cols" unfolding cols'_def by (rule fillRow_length)
  have c': "cols' ! i = (if col_type (cols ! i) = TText \<and> B
      then (cols ! i)\<lparr>col_type := TNumber\<rparr> else cols ! i)"
    unfolding cols'_def B_def
    using fillRow_nth [OF Cons.prems, of rt "csv_fields l" 0 Map.empty] by simp
  have i': "i < length cols'" using len Cons.prems by simp
  have BC: "(\<exists>l\<in>set (l # ls). looksNumeric rt (field_at (csv_fields l) i)) \<longleftrightarrow> B \<or> C"
    by (simp add: B_def C_def)
  have "fst (parseRows rt (l # ls) cols) ! i = fst (parseRows rt ls cols') ! i"
    unfolding parseRows_fst_Cons cols'_def ..
  also have "\<dots> = (if col_type (cols' ! i) = TText \<and> C
      then (cols' ! i)\<lparr>col_type := TNumber\<rparr> else cols' ! i)"
    unfolding C_def by (rule Cons.IH [OF i'])
  also have "\<dots> = (if col_type (cols ! i) = TText \<and> (B \<or> C)
      then (cols ! i)\<lparr>col_type := TNumber\<rparr> else cols ! i)"
    by (rule upgrade_twice [OF c'])
  finally show ?case unfolding BC .
qed

lemma headerColumns_length: "length (headerColumns hs) = length hs"
  by (simp add: headerColumns_def)

lemma headerColumns_nth:
  "i < length hs \<Longrightarrow> col_id (headerColumns hs ! i) = str ''col_'' @ digits10 i \<and>
     col_type (headerColumns hs ! i) = TText"
  by (simp add: headerColumns_def nth_enumerate_eq)

lemma parseCSV_columns_of_lines:
  assumes "csv_lines content = header # dataLines"
  shows "\<exists>t. parseCSV rt uuid now1 now2 content fileName = Inr t \<and>
     map col_id (columns t) = map (\<lambda>i. str ''col_'' @ digits10 i) [0..<length (csv_fields header)] \<and>
     (\<forall>i < length (csv_fields header).
        col_type (columns t ! i) =
          (if \<exists>line\<in>set dataLines. looksNumeric rt (field_at (csv_fields line) i)
           then TNumber else TText))"
proof -
  define hs where "hs = csv_fields header"
  define cols where "cols = fst (parseRows rt dataLines (headerColumns hs))"
  obtain t where run: "parseCSV rt uuid now1 now2 content fileName = Inr t"
    and ct: "columns t = cols"
    using assms by (simp add: parseCSV_def Let_def cols_def hs_def)
  have len: "length cols = length hs"
    by (simp add: cols_def parseRows_length headerColumns_length)
  have nth: "cols ! i =
     (if \<exists>l\<in>set dataLines. looksNumeric rt (field_at (csv_fields l) i)
      then (headerColumns hs ! i)\<lparr>col_type := TNumber\<rparr> else headerColumns hs ! i)"
    if "i < length hs" for i
    using that parseRows_nth [of i "headerColumns hs" rt dataLines] headerColumns_nth [of i hs]
    by (simp add: cols_def headerColumns_length)
  have ids: "map col_id cols = map (\<lambda>i. str ''col_'' @ digits10 i) [0..<length hs]"
  proof (rule nth_equalityI)
    show "length (map col_id cols) = length (map (\<lambda>i. str ''col_'' @ digits10 i) [0..<length hs])"
      using len by simp
  next
    fix i assume "i < length (map col_id cols)"
    hence i: "i < length hs" using len by simp
    show "map col_id cols ! i = map (\<lambda>i. str ''col_'' @ digits10 i) [0..<length hs] ! i"
      using i len nth [OF i] headerColumns_nth [OF i] by simp
  qed
  have types: "\<forall>i < length hs. col_type (cols ! i) =
          (if \<exists>line\<in>set dataLines. looksNumeric rt (field_at (csv_fields line) i)
           then TNumber else TText)"
    using nth headerColumns_nth by simp
  show ?thesis using run ct ids types unfolding hs_def by blast
qed

text \<open>
  C4 (as amended).  Whenever the import returns a table, the file has a header line; the
  column ids are col_0, col_1, ... in header order; and a column's type is number
  exactly when at least one data line holds, in that column, a value that passes the
  test for a canonical number, and text otherwise.
\<close>

theorem parseCSV_columns:
  assumes "parseCSV rt uuid now1 now2 content fileName = Inr t"
  shows "\<exists>header dataLines. csv_lines content = header # dataLines \<and>
     map col_id (columns t) = map (\<lambda>i. str ''col_'' @ digits10 i) [0..<length (csv_fields header)] \<and>
     (\<forall>i < length (csv_fields header).
        col_type (columns t ! i) =
          (if \<exists>line\<in>set dataLines. looksNumeric rt (field_at (csv_fields line) i)
           then TNumber else TText))"
proof (cases "csv_lines content")
  case Nil
  hence "parseCSV rt uuid now1 now2 content fileName = Inl (Error (str ''Empty file''))"
    by (simp add: parseCSV_def)
  thus ?thesis using assms by simp
next
  case (Cons header dataLines)
  from parseCSV_columns_of_lines [OF Cons, of rt uuid now1 now2 fileName] obtain t' where
    run: "parseCSV rt uuid now1 now2 content fileName = Inr t'"
    and ids: "map col_id (columns t') = map (\<lambda>i. str ''col_'' @ digits10 i) [0..<length (csv_fields header)]"
    and types: "\<forall>i < length (csv_fields header).
        col_type (columns t' ! i) =
          (if \<exists>line\<in>set dataLines. looksNumeric rt (field_at (csv_fields line) i)
           then TNumber else TText)"
    by (elim exE conjE)
  have tt: "t' = t" using run assms by simp
  show ?thesis
    by (intro exI [of _ header] exI [of _ dataLines] conjI)
       (rule Cons, rule ids [unfolded tt], rule types [unfolded tt])
qed

lemma example_import:
  "\<exists>t. parseCSV example_runtime [] 0 0 example_csv (str ''a.csv'') = Inr t"
  by (simp add: parseCSV_def ex_lines Let_def)

theorem parseCSV_columns_witness:
  "\<exists>t. parseCSV example_runtime [] 0 0 example_csv (str ''a.csv'') = Inr t \<and>
     map col_id (columns t) = [str ''col_0''] \<and> col_type (columns t ! 0) = TNumber"
proof -
  from example_import obtain t where
    run: "parseCSV example_runtime [] 0 0 example_csv (str ''a.csv'') = Inr t" ..
  from parseCSV_columns [OF run] obtain header dataLines where
    lines: "csv_lines example_csv = header # dataLines"
    and ids: "map col_id (columns t) = map (\<lambda>i. str ''col_'' @ digits10 i) [0..<length (csv_fields header)]"
    and ty: "\<forall>i < length (csv_fields header).
        col_type (columns t ! i) =
          (if \<exists>line\<in>set dataLines. looksNumeric example_runtime (field_at (csv_fields line) i)
           then TNumber else TText)"
    by (elim exE conjE)
  have hd: "header = str ''a''" and dl: "dataLines = [str ''1'', str ''x'']"
    using lines unfolding ex_lines by simp_all
  have one: "[0..<length (csv_fields header)] = [0]" by (simp add: hd ex_fields)
  have a: "map col_id (columns t) = [str ''col_0'']"
    unfolding ids one by (simp add: digits10_small str_def)
  have "0 < length (csv_fields header)" by (simp add: hd ex_fields)
  hence b: "col_type (columns t ! 0) = TNumber"
    using ty by (simp add: dl ex_fields field_at_def ex_numeric)
  show ?thesis by (intro exI [of _ t] conjI) (rule run, rule a, rule b)
qed

lemma ex_exponent_lines: "csv_lines example_exponent_csv = [str ''a'', str ''1e+21'']"
  by (simp add: csv_lines_def example_exponent_csv_def str_def trim_def is_js_space_def)

lemma ex_exponent_fields: "csv_fields (str ''1e+21'') = [str ''1e+21'']"
  by (simp add: csv_fields_def str_def trim_def is_js_space_def strip_quotes_def)

lemma number_column_example:
  assumes "csv_lines content = [str ''a'', v]" and "csv_fields v = [v]"
    and "looksNumeric example_runtime v"
  shows "\<exists>t. parseCSV example_runtime [] 0 0 content (str ''a.csv'') = Inr t \<and>
           col_type (columns t ! 0) = TNumber"
proof -
  from parseCSV_columns_of_lines [OF assms(1), of example_runtime "[]" 0 0 "str ''a.csv''"]
  obtain t where run: "parseCSV example_runtime [] 0 0 content (str ''a.csv'') = Inr t"
    and ty: "\<forall>i < length (csv_fields (str ''a'')).
        col_type (columns t ! i) =
          (if \<exists>line\<in>set [v]. looksNumeric example_runtime (field_at (csv_fields line) i)
           then TNumber else TText)"
    by (elim exE conjE)
  have "0 < length (csv_fields (str ''a''))" by (simp add: ex_fields)
  hence "col_type (columns t ! 0) = TNumber"
    using ty assms(2,3) by (simp add: field_at_def)
  with run show ?thesis by (intro exI [of _ t] conjI)
qed

text \<open>
  C4 as stated fails in two ways.  In the file with header "a" and data lines "1" and "x"
  the column is typed number, although "x" is a non-empty value of it that is no number.
  In the file with header "a" and the data line "1e+21" the column is typed number: the
  value passes the test, and it is written with an exponent.
\<close>

theorem parseCSV_number_counterexample:
  "csv_lines example_csv = [str ''a'', str ''1'', str ''x''] \<and>
   (\<exists>t. parseCSV example_runtime [] 0 0 example_csv (str ''a.csv'') = Inr t \<and>
        col_type (columns t ! 0) = TNumber) \<and>
   \<not> spec_number_column example_runtime [str ''1'', str ''x''] 0 \<and>
   csv_lines example_exponent_csv = [str ''a'', str ''1e+21''] \<and>
   (\<exists>t. parseCSV example_runtime [] 0 0 example_exponent_csv (str ''a.csv'') = Inr t \<and>
        col_type (columns t ! 0) = TNumber) \<and>
   looksNumeric example_runtime (str ''1e+21'') \<and>
   \<not> spec_number_column example_runtime [str ''1e+21''] 0"
proof -
  have x: "\<not> spec_canonical example_runtime (str ''x'')"
    by (simp add: spec_canonical_def ex_numeric)
  have a: "\<not> spec_number_column example_runtime [str ''1'', str ''x''] 0"
    using x by (simp add: spec_number_column_def ex_fields field_at_def) (simp add: str_def)
  have b: "\<exists>t. parseCSV example_runtime [] 0 0 example_csv (str ''a.csv'') = Inr t \<and>
        col_type (columns t ! 0) = TNumber"
    by (simp add: parseCSV_def ex_lines Let_def ex_fields headerColumns_def field_at_def ex_numeric)
  have e: "\<not> spec_canonical example_runtime (str ''1e+21'')"
    by (simp add: spec_canonical_def str_def)
  have c: "\<not> spec_number_column example_runtime [str ''1e+21''] 0"
    using e by (simp add: spec_number_column_def ex_exponent_fields field_at_def)
               (simp add: str_def)
  have d: "\<exists>t. parseCSV example_runtime [] 0 0 example_exponent_csv (str ''a.csv'') = Inr t \<and>
        col_type (columns t ! 0) = TNumber"
    by (rule number_column_example [OF ex_exponent_lines ex_exponent_fields ex_exponent_numeric])
  show ?thesis
    by (intro conjI) (rule ex_lines, rule b, rule a, rule ex_exponent_lines, rule d,
        rule ex_exponent_numeric, rule c)
qed

section \<open>Properties of the table handlers\<close>

lemma fold_append_rows:
  "fold (applyRowUpdate Append) us rs = rs @ map (\<lambda>u. Some (updates u)) us"
  by (induction us arbitrary: rs) (simp_all add: applyRowUpdate_def)

lemma handleVoiceUpdate_rows:
  assumes "currentTable st = Some t"
  shows "currentTable (handleVoiceUpdate now result st)
     = Some (t\<lparr>rows := fold (applyRowUpdate (action result)) (rowUpdates result) (rows t),
               lastModified := now\<rparr>)"
  using assms by (simp add: handleVoiceUpdate_def Let_def)

text \<open>
  C5.  With action append, handleVoiceUpdate appends one new row per rowUpdates entry,
  built from the entry's updates, whatever the entry's rowIndex is (also when it is the
  index of an existing row).  With any action, an entry whose rowIndex is -1 appends a
  new row built from its updates to the rows as they are when the entry is reached.
\<close>

theorem append_adds_a_row_per_entry:
  assumes "currentTable st = Some t"
  shows "(action result = Append \<longrightarrow>
           (\<exists>t'. currentTable (handleVoiceUpdate now result st) = Some t' \<and>
                 rows t' = rows t @ map (\<lambda>u. Some (updates u)) (rowUpdates result))) \<and>
         (\<forall>us1 u us2. rowUpdates result = us1 @ u # us2 \<and> rowIndex u = - 1 \<longrightarrow>
           (\<exists>t'. currentTable (handleVoiceUpdate now result st) = Some t' \<and>
                 rows t' = fold (applyRowUpdate (action result)) us2
                             (fold (applyRowUpdate (action result)) us1 (rows t)
                                @ [Some (updates u)])))"
proof (intro conjI impI allI)
  assume "action result = Append"
  thus "\<exists>t'. currentTable (handleVoiceUpdate now result st) = Some t' \<and>
                 rows t' = rows t @ map (\<lambda>u. Some (updates u)) (rowUpdates result)"
    using handleVoiceUpdate_rows [OF assms, of now result] by (simp add: fold_append_rows)
next
  fix us1 u us2
  assume a: "rowUpdates result = us1 @ u # us2 \<and> rowIndex u = - 1"
  hence "applyRowUpdate (action result) u rs = rs @ [Some (updates u)]" for rs
    by (simp add: applyRowUpdate_def)
  thus "\<exists>t'. currentTable (handleVoiceUpdate now result st) = Some t' \<and>
                 rows t' = fold (applyRowUpdate (action result)) us2
                             (fold (applyRowUpdate (action result)) us1 (rows t)
                                @ [Some (updates u)])"
    using handleVoiceUpdate_rows [OF assms, of now result] a by simp
qed

lemma applyRowUpdate_merge:
  assumes "act \<noteq> Append" and "0 \<le> rowIndex u" and "rowIndex u < int (length rs)"
  shows "applyRowUpdate act u rs
     = rs[nat (rowIndex u) := Some (spread (rs ! nat (rowIndex u)) ++ updates u)]"
  using assms by (simp add: applyRowUpdate_def)

lemma applyRowUpdate_drop:
  assumes "act \<noteq> Append" and "int (length rs) \<le> rowIndex u"
  shows "applyRowUpdate act u rs = rs"
  using assms by (simp add: applyRowUpdate_def)

lemma merge_fields:
  "(r ++ upd) k = (case upd k of Some v \<Rightarrow> Some v | None \<Rightarrow> r k)"
  by (simp add: map_add_def)

text \<open>
  C8.  With an action other than append: an entry with 0 <= rowIndex < rows.length
  keeps the number of rows, leaves every other row as it is, and puts at its index the
  row that has the entry's value for every field named in updates and the old row's
  value for every other field; an entry with rowIndex >= rows.length changes nothing;
  and in a batch the entries before and after such an entry are applied as usual (the
  columns of the table stay as they are).
\<close>

theorem update_merges_or_drops:
  assumes "act \<noteq> Append"
  shows "(0 \<le> rowIndex u \<and> rowIndex u < int (length rs) \<longrightarrow>
           length (applyRowUpdate act u rs) = length rs \<and>
           (\<forall>j < length rs. j \<noteq> nat (rowIndex u) \<longrightarrow> applyRowUpdate act u rs ! j = rs ! j) \<and>
           (\<exists>row'. applyRowUpdate act u rs ! nat (rowIndex u) = Some row' \<and>
              (\<forall>k. row' k = (case updates u k of
                               Some v \<Rightarrow> Some v
                             | None \<Rightarrow> spread (rs ! nat (rowIndex u)) k)))) \<and>
         (int (length rs) \<le> rowIndex u \<longrightarrow> applyRowUpdate act u rs = rs) \<and>
         (currentTable st = Some t \<and> action result = act \<and> rowUpdates result = us1 @ u # us2 \<longrightarrow>
           (\<exists>t'. currentTable (handleVoiceUpdate now result st) = Some t' \<and>
                 columns t' = columns t \<and>
                 rows t' = fold (applyRowUpdate act) us2
                             (applyRowUpdate act u (fold (applyRowUpdate act) us1 (rows t)))))"
proof (intro conjI impI)
  assume a: "0 \<le> rowIndex u \<and> rowIndex u < int (length rs)"
  hence m: "applyRowUpdate act u rs
     = rs[nat (rowIndex u) := Some (spread (rs ! nat (rowIndex u)) ++ updates u)]"
    using assms applyRowUpdate_merge by blast
  have i: "nat (rowIndex u) < length rs" using a by (simp add: nat_less_iff)
  show "length (applyRowUpdate act u rs) = length rs" unfolding m by simp
  show "\<forall>j < length rs. j \<noteq> nat (rowIndex u) \<longrightarrow> applyRowUpdate act u rs ! j = rs ! j"
    unfolding m by simp
  show "\<exists>row'. applyRowUpdate act u rs ! nat (rowIndex u) = Some row' \<and>
              (\<forall>k. row' k = (case updates u k of
                               Some v \<Rightarrow> Some v
                             | None \<Rightarrow> spread (rs ! nat (rowIndex u)) k))"
    unfolding m using i by (simp add: merge_fields)
next
  assume "int (length rs) \<le> rowIndex u"
  thus "applyRowUpdate act u rs = rs" by (rule applyRowUpdate_drop [OF assms])
next
  assume a: "currentTable st = Some t \<and> action result = act \<and> rowUpdates result = us1 @ u # us2"
  hence ct: "currentTable st = Some t" by simp
  show "\<exists>t'. currentTable (handleVoiceUpdate now result st) = Some t' \<and>
                 columns t' = columns t \<and>
                 rows t' = fold (applyRowUpdate act) us2
                             (applyRowUpdate act u (fold (applyRowUpdate act) us1 (rows t)))"
    using handleVoiceUpdate_rows [OF ct, of now result] a by simp
qed


theorem append_adds_a_row_per_entry_witness:
  "\<exists>t'. currentTable (handleVoiceUpdate 2
            \<lparr>rowUpdates = [example_update 0], action = Append, result_feedback = str ''Added''\<rparr>
            example_app) = Some t' \<and>
        rows t' = rows example_table @ [Some (updates (example_update 0))]"
proof -
  have h: "currentTable example_app = Some example_table" by (simp add: example_app_def)
  from append_adds_a_row_per_entry [OF h, of
      "\<lparr>rowUpdates = [example_update 0], action = Append, result_feedback = str ''Added''\<rparr>" 2]
  show ?thesis by simp
qed

theorem update_merges_or_drops_witness:
  "(\<exists>row'. applyRowUpdate Update (example_update 0) (rows example_table) ! 0 = Some row' \<and>
       row' (str ''c0'') = Some (CNum (Some 7)) \<and> row' (str ''c1'') = Some (CStr (str ''ok''))) \<and>
   length (applyRowUpdate Update (example_update 0) (rows example_table)) = 1 \<and>
   applyRowUpdate Update (example_update 5) (rows example_table) = rows example_table"
proof -
  have ne: "Update \<noteq> Append" by simp
  have len: "length (rows example_table) = 1" by (simp add: example_table_def)
  have r0: "rows example_table ! 0 = Some [str ''c0'' \<mapsto> CNum (Some 5), str ''c1'' \<mapsto> CStr (str ''ok'')]"
    by (simp add: example_table_def)
  have i0: "rowIndex (example_update 0) = 0" and i5: "rowIndex (example_update 5) = 5"
    and u0: "updates (example_update 0) = [str ''c0'' \<mapsto> CNum (Some 7)]"
    by (simp_all add: example_update_def)
  note T = update_merges_or_drops [OF ne, of "example_update 0" "rows example_table"]
  note D = update_merges_or_drops [OF ne, of "example_update 5" "rows example_table"]
  have in0: "0 \<le> rowIndex (example_update 0) \<and>
             rowIndex (example_update 0) < int (length (rows example_table))"
    by (simp add: i0 len)
  note M = T [THEN conjunct1, rule_format, OF in0]
  have l1: "length (applyRowUpdate Update (example_update 0) (rows example_table)) = 1"
    using M [THEN conjunct1] len by simp
  from M [THEN conjunct2, THEN conjunct2] obtain row' where
    nth: "applyRowUpdate Update (example_update 0) (rows example_table)
            ! nat (rowIndex (example_update 0)) = Some row'"
    and fields: "\<And>k. row' k = (case updates (example_update 0) k of
                               Some v \<Rightarrow> Some v
                             | None \<Rightarrow> spread (rows example_table ! nat (rowIndex (example_update 0))) k)"
    by (elim exE conjE) simp
  have nth0: "applyRowUpdate Update (example_update 0) (rows example_table) ! 0 = Some row'"
    using nth by (simp add: i0)
  have c0: "row' (str ''c0'') = Some (CNum (Some 7))"
    unfolding fields [of "str ''c0''"] by (simp add: u0)
  have c1: "row' (str ''c1'') = Some (CStr (str ''ok''))"
    unfolding fields [of "str ''c1''"] by (simp add: u0 i0 r0 spread_def str_def)
  have out5: "int (length (rows example_table)) \<le> rowIndex (example_update 5)"
    by (simp add: i5 len)
  have dropped: "applyRowUpdate Update (example_update 5) (rows example_table) = rows example_table"
    by (rule D [THEN conjunct2, THEN conjunct1, rule_format, OF out5])
  show ?thesis
    by (intro conjI exI [of _ row']) (rule nth0, rule c0, rule c1, rule l1, rule dropped)
qed

subsection \<open>Guided writes\<close>

lemma emptyRow_fold:
  "fold (\<lambda>c newRow. newRow(col_id c \<mapsto> CStr [])) cols m k
     = (if k \<in> col_id ` set cols then Some (CStr []) else m k)"
  by (induction cols arbitrary: m) auto

lemma emptyRow_apply:
  "emptyRow cols k = (if k \<in> col_id ` set cols then Some (CStr []) else None)"
  by (simp add: emptyRow_def emptyRow_fold)

lemma array_set_length: "length (array_set xs i v) = max (length xs) (i + 1)"
  by (auto simp: array_set_def)

lemma array_set_same: "array_set xs i v ! i = Some v"
  by (auto simp: array_set_def nth_append)

lemma array_set_other: "j < length xs \<Longrightarrow> j \<noteq> i \<Longrightarrow> array_set xs i v ! j = xs ! j"
  by (auto simp: array_set_def nth_append)

lemma array_set_hole:
  "length xs \<le> j \<Longrightarrow> j < i \<Longrightarrow> array_set xs i v ! j = None"
  by (auto simp: array_set_def nth_append)

lemma array_get_set_same: "array_get (array_set xs i v) (int i) = Some v"
  by (simp add: array_get_def array_set_length array_set_same)

lemma array_set_twice: "array_set (array_set xs i v) i w = array_set xs i w"
proof (cases "i < length xs")
  case True
  then show ?thesis by (simp add: array_set_def)
next
  case False
  define A where "A = xs @ replicate (i - length xs) None"
  have lenA: "length A = i" using False by (simp add: A_def)
  have one: "array_set xs i v = A @ [Some v]" and two: "array_set xs i w = A @ [Some w]"
    using False by (simp_all add: array_set_def A_def)
  have "array_set (A @ [Some v]) i w = (A @ [Some v])[i := Some w]"
    using lenA by (simp add: array_set_def)
  also have "\<dots> = A @ [Some w]"
    using list_update_length [of A "Some v" "[]" "Some w"] lenA by simp
  finally show ?thesis unfolding one two .
qed

lemma handleGuidedValue_rows:
  assumes "currentTable st = Some t" and "is_array_index rowIdx"
  shows "currentTable (handleGuidedValue now1 now2 rowIdx colId val st)
     = Some (t\<lparr>rows := array_set (rows t) (nat rowIdx)
                  ((case array_get (rows t) rowIdx of
                      None \<Rightarrow> emptyRow (columns t)
                    | Some row \<Rightarrow> row)(colId \<mapsto> CStr val)),
               lastModified := now1\<rparr>)"
proof (cases "array_get (rows t) rowIdx")
  case None
  have i: "int (nat rowIdx) = rowIdx" using assms(2) by (simp add: is_array_index_def)
  have "array_get (array_set (rows t) (nat rowIdx) (emptyRow (columns t))) rowIdx
          = Some (emptyRow (columns t))"
    using array_get_set_same [of "rows t" "nat rowIdx" "emptyRow (columns t)"] i by simp
  thus ?thesis
    using assms None
    by (simp add: handleGuidedValue_def Let_def array_set_twice spread_def)
next
  case (Some row)
  thus ?thesis
    using assms by (simp add: handleGuidedValue_def Let_def spread_def)
qed

lemma handleGuidedValue_no_index:
  assumes "currentTable st = Some t" and "\<not> is_array_index rowIdx"
  shows "currentTable (handleGuidedValue now1 now2 rowIdx colId val st)
     = Some (t\<lparr>rows := rows t, lastModified := now1\<rparr>)"
  using assms by (simp add: handleGuidedValue_def Let_def)

text \<open>
  C9 (as amended).  A guided write always yields a table.  When the row index is an
  array index (from 0 to 2 ^ 32 - 2) and is past the end or the entry there is a hole,
  the row at the index afterwards maps columnId to the value, every other current column
  id to the empty string, and nothing else; the indices between the old end and the
  written one are holes.  When the index holds a row, that row is updated at columnId
  only.  All other rows stay as they are.  With any other row index the rows of the
  table stay as they are.
\<close>

theorem guided_write_creates_or_merges:
  assumes "currentTable st = Some t"
  shows "\<exists>t'. currentTable (handleGuidedValue now1 now2 rowIdx colId val st) = Some t' \<and>
     (0 \<le> rowIdx \<and> rowIdx \<le> 4294967294 \<longrightarrow>
        length (rows t') = max (length (rows t)) (nat rowIdx + 1) \<and>
        (\<forall>j < length (rows t). j \<noteq> nat rowIdx \<longrightarrow> rows t' ! j = rows t ! j) \<and>
        (\<forall>j. length (rows t) \<le> j \<and> j < nat rowIdx \<longrightarrow> rows t' ! j = None) \<and>
        (int (length (rows t)) \<le> rowIdx \<or> rows t ! nat rowIdx = None \<longrightarrow>
           (\<exists>row'. rows t' ! nat rowIdx = Some row' \<and>
              (\<forall>k. row' k = (if k = colId then Some (CStr val)
                             else if k \<in> col_id ` set (columns t) then Some (CStr [])
                             else None)))) \<and>
        (\<forall>row. rowIdx < int (length (rows t)) \<and> rows t ! nat rowIdx = Some row \<longrightarrow>
           rows t' ! nat rowIdx = Some (row(colId \<mapsto> CStr val)))) \<and>
     (rowIdx < 0 \<or> 4294967294 < rowIdx \<longrightarrow> rows t' = rows t)"
proof (cases "is_array_index rowIdx")
  case False
  define t' where "t' = t\<lparr>rows := rows t, lastModified := now1\<rparr>"
  have run: "currentTable (handleGuidedValue now1 now2 rowIdx colId val st) = Some t'"
    unfolding t'_def by (rule handleGuidedValue_no_index [OF assms False])
  have same: "rows t' = rows t" by (simp add: t'_def)
  have out: "R" if "0 \<le> rowIdx \<and> rowIdx \<le> 4294967294" for R
    using False that by (simp add: is_array_index_def)
  show ?thesis
  proof (intro exI [of _ t'] conjI)
    show "currentTable (handleGuidedValue now1 now2 rowIdx colId val st) = Some t'" by (rule run)
    show "rowIdx < 0 \<or> 4294967294 < rowIdx \<longrightarrow> rows t' = rows t" using same by simp
  qed (rule impI, erule out)
next
  case True
  hence nonneg: "0 \<le> rowIdx" and inside: "\<not> (rowIdx < 0 \<or> 4294967294 < rowIdx)"
    by (simp_all add: is_array_index_def)
  define base where "base = (case array_get (rows t) rowIdx of
                      None \<Rightarrow> emptyRow (columns t) | Some row \<Rightarrow> row)"
  define t' where "t' = t\<lparr>rows := array_set (rows t) (nat rowIdx) (base(colId \<mapsto> CStr val)),
               lastModified := now1\<rparr>"
  have run: "currentTable (handleGuidedValue now1 now2 rowIdx colId val st) = Some t'"
    unfolding t'_def base_def by (rule handleGuidedValue_rows [OF assms True])
  have rows': "rows t' = array_set (rows t) (nat rowIdx) (base(colId \<mapsto> CStr val))"
    by (simp add: t'_def)
  have len: "length (rows t') = max (length (rows t)) (nat rowIdx + 1)"
    unfolding rows' by (rule array_set_length)
  have other: "\<forall>j < length (rows t). j \<noteq> nat rowIdx \<longrightarrow> rows t' ! j = rows t ! j"
    unfolding rows' by (simp add: array_set_other)
  have holes: "\<forall>j. length (rows t) \<le> j \<and> j < nat rowIdx \<longrightarrow> rows t' ! j = None"
    unfolding rows' by (simp add: array_set_hole)
  have at: "rows t' ! nat rowIdx = Some (base(colId \<mapsto> CStr val))"
    unfolding rows' by (rule array_set_same)
  have fresh: "int (length (rows t)) \<le> rowIdx \<or> rows t ! nat rowIdx = None \<longrightarrow>
        (\<exists>row'. rows t' ! nat rowIdx = Some row' \<and>
           (\<forall>k. row' k = (if k = colId then Some (CStr val)
                          else if k \<in> col_id ` set (columns t) then Some (CStr [])
                          else None)))"
  proof
    assume "int (length (rows t)) \<le> rowIdx \<or> rows t ! nat rowIdx = None"
    hence "array_get (rows t) rowIdx = None" by (auto simp: array_get_def)
    hence "base = emptyRow (columns t)" by (simp add: base_def)
    thus "\<exists>row'. rows t' ! nat rowIdx = Some row' \<and>
           (\<forall>k. row' k = (if k = colId then Some (CStr val)
                          else if k \<in> col_id ` set (columns t) then Some (CStr [])
                          else None))"
      using at by (simp add: emptyRow_apply)
  qed
  have merge: "\<forall>row. rowIdx < int (length (rows t)) \<and> rows t ! nat rowIdx = Some row \<longrightarrow>
        rows t' ! nat rowIdx = Some (row(colId \<mapsto> CStr val))"
  proof (intro allI impI)
    fix row assume "rowIdx < int (length (rows t)) \<and> rows t ! nat rowIdx = Some row"
    hence "array_get (rows t) rowIdx = Some row" using nonneg by (simp add: array_get_def)
    hence "base = row" by (simp add: base_def)
    thus "rows t' ! nat rowIdx = Some (row(colId \<mapsto> CStr val))" using at by simp
  qed
  have first: "0 \<le> rowIdx \<and> rowIdx \<le> 4294967294 \<longrightarrow>
        length (rows t') = max (length (rows t)) (nat rowIdx + 1) \<and>
        (\<forall>j < length (rows t). j \<noteq> nat rowIdx \<longrightarrow> rows t' ! j = rows t ! j) \<and>
        (\<forall>j. length (rows t) \<le> j \<and> j < nat rowIdx \<longrightarrow> rows t' ! j = None) \<and>
        (int (length (rows t)) \<le> rowIdx \<or> rows t ! nat rowIdx = None \<longrightarrow>
           (\<exists>row'. rows t' ! nat rowIdx = Some row' \<and>
              (\<forall>k. row' k = (if k = colId then Some (CStr val)
                             else if k \<in> col_id ` set (columns t) then Some (CStr [])
                             else None)))) \<and>
        (\<forall>row. rowIdx < int (length (rows t)) \<and> rows t ! nat rowIdx = Some row \<longrightarrow>
           rows t' ! nat rowIdx = Some (row(colId \<mapsto> CStr val)))"
  proof (rule impI)
    show "length (rows t') = max (length (rows t)) (nat rowIdx + 1) \<and>
        (\<forall>j < length (rows t). j \<noteq> nat rowIdx \<longrightarrow> rows t' ! j = rows t ! j) \<and>
        (\<forall>j. length (rows t) \<le> j \<and> j < nat rowIdx \<longrightarrow> rows t' ! j = None) \<and>
        (int (length (rows t)) \<le> rowIdx \<or> rows t ! nat rowIdx = None \<longrightarrow>
           (\<exists>row'. rows t' ! nat rowIdx = Some row' \<and>
              (\<forall>k. row' k = (if k = colId then Some (CStr val)
                             else if k \<in> col_id ` set (columns t) then Some (CStr [])
                             else None)))) \<and>
        (\<forall>row. rowIdx < int (length (rows t)) \<and> rows t ! nat rowIdx = Some row \<longrightarrow>
           rows t' ! nat rowIdx = Some (row(colId \<mapsto> CStr val)))"
      by (intro conjI) (rule len, rule other, rule holes, rule fresh, rule merge)
  qed
  have second: "rowIdx < 0 \<or> 4294967294 < rowIdx \<longrightarrow> rows t' = rows t"
    using inside by simp
  show ?thesis
    by (intro exI [of _ t'] conjI) (rule run, rule first, rule second)
qed

theorem guided_write_creates_or_merges_witness:
  "\<exists>t' row'. currentTable (handleGuidedValue 2 3 2 (str ''c0'') (str ''7'') example_app) = Some t' \<and>
     length (rows t') = 3 \<and> rows t' ! 0 = rows example_table ! 0 \<and> rows t' ! 1 = None \<and>
     rows t' ! 2 = Some row' \<and> row' (str ''c0'') = Some (CStr (str ''7'')) \<and>
     row' (str ''c1'') = Some (CStr [])"
proof -
  have h1: "currentTable example_app = Some example_table" by (simp add: example_app_def)
  have h2: "(0::int) \<le> 2 \<and> (2::int) \<le> 4294967294" by simp
  have len: "length (rows example_table) = 1" by (simp add: example_table_def)
  have cols: "col_id ` set (columns example_table) = {str ''c0'', str ''c1''}"
    by (simp add: example_table_def)
  from guided_write_creates_or_merges [OF h1, of 2 3 2 "str ''c0''" "str ''7''"]
  obtain t' where
    run: "currentTable (handleGuidedValue 2 3 2 (str ''c0'') (str ''7'') example_app) = Some t'"
    and main: "0 \<le> (2::int) \<and> (2::int) \<le> 4294967294 \<longrightarrow>
        length (rows t') = max (length (rows example_table)) (nat 2 + 1) \<and>
        (\<forall>j < length (rows example_table). j \<noteq> nat 2 \<longrightarrow> rows t' ! j = rows example_table ! j) \<and>
        (\<forall>j. length (rows example_table) \<le> j \<and> j < nat 2 \<longrightarrow> rows t' ! j = None) \<and>
        (int (length (rows example_table)) \<le> 2 \<or> rows example_table ! nat 2 = None \<longrightarrow>
           (\<exists>row'. rows t' ! nat 2 = Some row' \<and>
              (\<forall>k. row' k = (if k = str ''c0'' then Some (CStr (str ''7''))
                             else if k \<in> col_id ` set (columns example_table) then Some (CStr [])
                             else None)))) \<and>
        (\<forall>row. 2 < int (length (rows example_table)) \<and> rows example_table ! nat 2 = Some row \<longrightarrow>
           rows t' ! nat 2 = Some (row(str ''c0'' \<mapsto> CStr (str ''7''))))"
    by (elim exE conjE)
  note m = main [rule_format, OF h2]
  note l = m [THEN conjunct1]
  note other = m [THEN conjunct2, THEN conjunct1]
  note holes = m [THEN conjunct2, THEN conjunct2, THEN conjunct1]
  note fresh = m [THEN conjunct2, THEN conjunct2, THEN conjunct2, THEN conjunct1]
  from fresh len obtain row' where
    r2: "rows t' ! nat 2 = Some row'"
    and f: "\<And>k. row' k = (if k = str ''c0'' then Some (CStr (str ''7''))
                          else if k \<in> col_id ` set (columns example_table) then Some (CStr [])
                          else None)"
    by auto
  have a: "length (rows t') = 3" using l len by simp
  have b: "rows t' ! 0 = rows example_table ! 0" using other len by simp
  have c: "rows t' ! 1 = None" using holes len by simp
  have d: "rows t' ! 2 = Some row'" using r2 by simp
  have e: "row' (str ''c0'') = Some (CStr (str ''7''))" unfolding f by simp
  have g: "row' (str ''c1'') = Some (CStr [])" unfolding f cols by (simp add: str_def)
  show ?thesis
    by (intro exI [of _ t'] exI [of _ row'] conjI) (rule run, rule a, rule b, rule c, rule d, rule e, rule g)
qed

text \<open>
  C9 as stated fails for a row index that is no array index: the indices -1 and
  4294967295 refer to no existing row of the one-row table, and after the write the
  rows are the same one row; no row was placed and the value is in no row.
\<close>

theorem guided_write_counterexample:
  "(\<exists>t'. currentTable (handleGuidedValue 2 3 (- 1) (str ''c0'') (str ''7'') example_app) = Some t' \<and>
         rows t' = rows example_table) \<and>
   (\<exists>t'. currentTable (handleGuidedValue 2 3 4294967295 (str ''c0'') (str ''7'') example_app) = Some t' \<and>
         rows t' = rows example_table) \<and>
   length (rows example_table) = 1"
proof -
  have h1: "currentTable example_app = Some example_table" by (simp add: example_app_def)
  have n1: "\<not> is_array_index (- 1)" and n2: "\<not> is_array_index 4294967295"
    by (simp_all add: is_array_index_def)
  have a: "\<exists>t'. currentTable (handleGuidedValue 2 3 (- 1) (str ''c0'') (str ''7'') example_app) = Some t' \<and>
         rows t' = rows example_table"
    unfolding handleGuidedValue_no_index [OF h1 n1] by simp
  have b: "\<exists>t'. currentTable (handleGuidedValue 2 3 4294967295 (str ''c0'') (str ''7'') example_app) = Some t' \<and>
         rows t' = rows example_table"
    unfolding handleGuidedValue_no_index [OF h1 n2] by simp
  have c: "length (rows example_table) = 1" by (simp add: example_table_def)
  show ?thesis by (intro conjI) (rule a, rule b, rule c)
qed

end
